theory Spec2Isabelle
  imports Complex_Main
begin

section \<open>Periodic database cleanup (sogs/cleanup.py)\<close>

text \<open>
  The module prunes expired uploads, old message history and stale room activity, and
  applies scheduled permission changes. Its functions talk to three things outside the
  module: the relational store (through \<^verbatim>\<open>db.tx()\<close> and SQL statements), the
  filesystem (\<^verbatim>\<open>os.unlink\<close>) and the loggers. The embedding passes all three
  explicitly in a \<open>world\<close> record; the value returned by each call of
  \<^verbatim>\<open>time.time()\<close> and the two configured thresholds are parameters.
\<close>

subsection \<open>Tables\<close>

text \<open>
  Timestamps are seconds since the epoch, Python floats and SQL REAL values: finite doubles,
  each represented by the rational number it is. Comparing two of them is exact. The
  arithmetic that computes the retention bounds is rounded, see below. The schema is
  not part of this module: the columns are the ones the SQL statements name (and a row
  number for the message history, whose statement names the timestamp only), with the
  types the data model gives them: timestamps and paths are never NULL, each permission
  flag is an optional boolean. A table is the list of its rows in the order in which a
  statement scans it. Row counts and lengths are natural numbers.
\<close>

type_synonym timestamp = rat

record file_row =
  path :: string
  expiry :: timestamp

record history_row =
  message :: nat
  replaced :: timestamp

record room_user_row =
  active_room :: nat
  active_user :: nat
  last_active :: timestamp

record perm_flags =
  read :: "bool option"
  "write" :: "bool option"
  upload :: "bool option"
  banned :: "bool option"

text \<open>
  A scheduled permission change. The column \<^verbatim>\<open>at\<close> is named \<open>at_time\<close> here.
\<close>

record future_row =
  room :: nat
  user :: nat
  at_time :: timestamp
  flags :: perm_flags

text \<open>
  The live overrides have the unique key (room, user) that the statement's
  \<^verbatim>\<open>ON CONFLICT (room, user)\<close> clause names, so the table is a map from that key.
\<close>

record database =
  files :: "file_row list"
  message_history :: "history_row list"
  room_users :: "room_user_row list"
  user_permission_overrides :: "nat \<times> nat \<rightharpoonup> perm_flags"
  user_permission_futures :: "future_row list"

subsection \<open>The world outside the module\<close>

datatype exn = StoreError

datatype os_error = FileNotFoundError | PermissionError

text \<open>
  A path on disk holds nothing, a file that can be removed, or something whose removal
  fails with an error other than "not found" (a directory, a file in a read-only place).
\<close>

datatype entry = Removable | Unremovable

datatype level = DEBUG | INFO | WARNING | ERROR

datatype message =
    Pruning_expired_items
  | Pruned_summary nat nat nat nat
  | Cleanup_failed exn
  | Unable_to_remove string os_error
  | Pruned_files nat "nat option"
  | Pruned_history nat
  | Pruned_room_activity nat
  | Applied_permission_updates nat

text \<open>
  Everything observable that a run does, in the order it happens: the end of a transaction,
  a call of \<^verbatim>\<open>os.unlink\<close> with the error it raised (if any), a log record.
\<close>

datatype event =
    Commit
  | Rollback
  | Unlink string "os_error option"
  | Log level message

text \<open>
  \<open>faults\<close> is the fate of the coming transactions, one entry for each: \<open>True\<close> means
  that the store raises inside it. When the list is used up every transaction succeeds.
\<close>

record world =
  db :: database
  fs :: "string \<rightharpoonup> entry"
  faults :: "bool list"
  trace :: "event list"

definition emit :: "event \<Rightarrow> world \<Rightarrow> world" where
  "emit e w = w\<lparr>trace := trace w @ [e]\<rparr>"

text \<open>
  Modelled from the spec: \<^verbatim>\<open>db.tx()\<close> (sogs/db.py is not among the sources). The
  body runs against one atomic unit; when it finishes (also through a \<^verbatim>\<open>return\<close>)
  its writes are committed and its result is handed on; when the store raises, nothing of
  the body is kept and the error propagates. The bodies below do nothing but query and
  update the store, so a failure anywhere inside one leaves the same world.
\<close>

definition tx :: "(database \<Rightarrow> 'a \<times> database) \<Rightarrow> world \<Rightarrow> exn \<times> world + 'a \<times> world" where
  "tx work w =
     (case faults w of
        [] \<Rightarrow> (case work (db w) of (r, d) \<Rightarrow> Inr (r, emit Commit (w\<lparr>db := d\<rparr>)))
      | b # rest \<Rightarrow>
          if b then Inl (StoreError, emit Rollback (w\<lparr>faults := rest\<rparr>))
          else (case work (db w) of (r, d) \<Rightarrow> Inr (r, emit Commit (w\<lparr>db := d, faults := rest\<rparr>))))"

text \<open>
  \<^verbatim>\<open>os.unlink(path)\<close>: the new filesystem, or the error raised.
\<close>

definition os_unlink :: "string \<Rightarrow> (string \<rightharpoonup> entry) \<Rightarrow> os_error + (string \<rightharpoonup> entry)" where
  "os_unlink p f =
     (case f p of
        None \<Rightarrow> Inl FileNotFoundError
      | Some Removable \<Rightarrow> Inr (f(p := None))
      | Some Unremovable \<Rightarrow> Inl PermissionError)"

subsection \<open>prune\_files\<close>

text \<open>
  A body either leaves its function with \<^verbatim>\<open>return\<close> or runs to the end of the
  \<^verbatim>\<open>with\<close> block.
\<close>

datatype ('r, 'a) flow = Return 'r | Continue 'a

definition prune_files_tx :: "timestamp \<Rightarrow> database \<Rightarrow> (nat, string list) flow \<times> database" where
  "prune_files_tx now d =
     (let to_remove = map path (filter (\<lambda>r. expiry r < now) (files d))
      in if to_remove = [] then (Return 0, d)
         else (Continue to_remove, d\<lparr>files := filter (\<lambda>r. \<not> expiry r \<le> now) (files d)\<rparr>))"

text \<open>
  The loop over \<^verbatim>\<open>to_remove\<close>, with the counter \<^verbatim>\<open>unlink_count\<close>.
\<close>

fun unlink_loop :: "string list \<Rightarrow> nat \<Rightarrow> world \<Rightarrow> nat \<times> world" where
  "unlink_loop [] unlink_count w = (unlink_count, w)"
| "unlink_loop (p # ps) unlink_count w =
     (case os_unlink p (fs w) of
        Inr f \<Rightarrow> unlink_loop ps (unlink_count + 1) (emit (Unlink p None) (w\<lparr>fs := f\<rparr>))
      | Inl FileNotFoundError \<Rightarrow> unlink_loop ps unlink_count (emit (Unlink p (Some FileNotFoundError)) w)
      | Inl e \<Rightarrow>
          unlink_loop ps unlink_count
            (emit (Log ERROR (Unable_to_remove p e)) (emit (Unlink p (Some e)) w)))"

definition prune_files :: "timestamp \<Rightarrow> world \<Rightarrow> exn \<times> world + nat \<times> world" where
  "prune_files now w =
     (case tx (prune_files_tx now) w of
        Inl failure \<Rightarrow> Inl failure
      | Inr (Return n, w1) \<Rightarrow> Inr (n, w1)
      | Inr (Continue to_remove, w1) \<Rightarrow>
          (case unlink_loop to_remove 0 w1 of
             (unlink_count, w2) \<Rightarrow>
               Inr (length to_remove,
                    emit (Log INFO (Pruned_files (length to_remove)
                            (if unlink_count \<noteq> length to_remove then Some unlink_count else None)))
                      w2)))"

subsection \<open>Floating-point arithmetic\<close>

text \<open>
  The bounds \<^verbatim>\<open>time.time() - config.THRESHOLD * 86400\<close> are computed in binary64: the
  product is rounded, and then the difference. A result is a finite double or an infinity
  (a product of two finite doubles can overflow; no operand here is an infinity or a NaN
  on the way in, so no NaN arises).
\<close>

datatype double = Finite rat | Pos_inf | Neg_inf

text \<open>The number of binary digits of a positive integer.\<close>

function bit_length :: "int \<Rightarrow> int" where
  "bit_length n = (if n \<le> 0 then 0 else 1 + bit_length (n div 2))"
  by pat_completeness auto
termination
  by (relation "measure nat") auto

declare bit_length.simps [simp del]

definition pow2 :: "int \<Rightarrow> rat" where
  "pow2 k = (if 0 \<le> k then 2 ^ nat k else 1 / 2 ^ nat (- k))"

text \<open>The binary exponent of \<open>x \<noteq> 0\<close>: the \<open>e\<close> with \<open>2 ^ e \<le> |x| < 2 ^ (e + 1)\<close>.\<close>

definition exponent :: "rat \<Rightarrow> int" where
  "exponent x =
     (if 1 \<le> \<bar>x\<bar> then bit_length \<lfloor>\<bar>x\<bar>\<rfloor> - 1
      else - bit_length (\<lceil>1 / \<bar>x\<bar>\<rceil> - 1))"

definition round_half_even :: "rat \<Rightarrow> int" where
  "round_half_even r =
     (if r - of_int \<lfloor>r\<rfloor> < 1 / 2 then \<lfloor>r\<rfloor>
      else if 1 / 2 < r - of_int \<lfloor>r\<rfloor> then \<lfloor>r\<rfloor> + 1
      else if even \<lfloor>r\<rfloor> then \<lfloor>r\<rfloor> else \<lfloor>r\<rfloor> + 1)"

text \<open>
  Rounding to the nearest double, ties to the even significand: 53 significant bits, the
  spacing of the subnormal numbers below \<open>2 ^ -1022\<close>, an infinity from \<open>2 ^ 1024\<close> on.
\<close>

definition round_double :: "rat \<Rightarrow> double" where
  "round_double x =
     (if x = 0 then Finite 0
      else let q = pow2 (max (exponent x) (- 1022) - 52);
               y = of_int (round_half_even (x / q)) * q
           in if pow2 1024 \<le> \<bar>y\<bar> then (if 0 < x then Pos_inf else Neg_inf) else Finite y)"

text \<open>\<^verbatim>\<open>a * b\<close> for two finite doubles.\<close>

definition float_mul :: "rat \<Rightarrow> rat \<Rightarrow> double" where
  "float_mul a b = round_double (a * b)"

text \<open>\<^verbatim>\<open>a - b\<close> for a finite double \<open>a\<close>.\<close>

fun float_sub :: "rat \<Rightarrow> double \<Rightarrow> double" where
  "float_sub a (Finite b) = round_double (a - b)"
| "float_sub a Pos_inf = Neg_inf"
| "float_sub a Neg_inf = Pos_inf"

text \<open>The SQL comparison \<^verbatim>\<open>column < ?\<close> of a stored timestamp with the bound parameter.\<close>

fun sql_less :: "timestamp \<Rightarrow> double \<Rightarrow> bool" where
  "sql_less v (Finite b) = (v < b)"
| "sql_less v Pos_inf = True"
| "sql_less v Neg_inf = False"

subsection \<open>prune\_message\_history and prune\_room\_activity\<close>

text \<open>
  The two thresholds of \<^verbatim>\<open>sogs.config\<close> (not among the sources) are parameters: floats,
  numbers of days. (Were a threshold an integer, Python would compute the product exactly
  and round it when converting it for the subtraction: the same double.)
\<close>

record config =
  MESSAGE_HISTORY_PRUNE_THRESHOLD :: rat
  ROOM_ACTIVE_PRUNE_THRESHOLD :: rat

definition prune_message_history_tx :: "double \<Rightarrow> database \<Rightarrow> nat \<times> database" where
  "prune_message_history_tx bound d =
     (length (filter (\<lambda>r. sql_less (replaced r) bound) (message_history d)),
      d\<lparr>message_history := filter (\<lambda>r. \<not> sql_less (replaced r) bound) (message_history d)\<rparr>)"

definition prune_message_history :: "config \<Rightarrow> timestamp \<Rightarrow> world \<Rightarrow> exn \<times> world + nat \<times> world" where
  "prune_message_history cfg now w =
     (case tx (prune_message_history_tx
                 (float_sub now (float_mul (MESSAGE_HISTORY_PRUNE_THRESHOLD cfg) 86400))) w of
        Inl failure \<Rightarrow> Inl failure
      | Inr (count, w1) \<Rightarrow>
          Inr (count, if count > 0 then emit (Log INFO (Pruned_history count)) w1 else w1))"

definition prune_room_activity_tx :: "double \<Rightarrow> database \<Rightarrow> nat \<times> database" where
  "prune_room_activity_tx bound d =
     (length (filter (\<lambda>r. sql_less (last_active r) bound) (room_users d)),
      d\<lparr>room_users := filter (\<lambda>r. \<not> sql_less (last_active r) bound) (room_users d)\<rparr>)"

definition prune_room_activity :: "config \<Rightarrow> timestamp \<Rightarrow> world \<Rightarrow> exn \<times> world + nat \<times> world" where
  "prune_room_activity cfg now w =
     (case tx (prune_room_activity_tx
                 (float_sub now (float_mul (ROOM_ACTIVE_PRUNE_THRESHOLD cfg) 86400))) w of
        Inl failure \<Rightarrow> Inl failure
      | Inr (count, w1) \<Rightarrow>
          Inr (count, if count > 0 then emit (Log INFO (Pruned_room_activity count)) w1 else w1))"

subsection \<open>apply\_permission\_updates\<close>

text \<open>
  \<^verbatim>\<open>COALESCE(excluded.x, x)\<close>: the new value when it is not NULL, else the old one.
\<close>

definition coalesce :: "'a option \<Rightarrow> 'a option \<Rightarrow> 'a option" where
  "coalesce a b = (case a of Some v \<Rightarrow> Some v | None \<Rightarrow> b)"

definition do_update :: "perm_flags \<Rightarrow> perm_flags \<Rightarrow> perm_flags" where
  "do_update excluded live =
     \<lparr>read = coalesce (read excluded) (read live),
      write = coalesce (write excluded) (write live),
      upload = coalesce (upload excluded) (upload live),
      banned = coalesce (banned excluded) (banned live)\<rparr>"

text \<open>
  One selected row of the INSERT: inserted when its key is free, merged into the row that
  has the key otherwise (a row that an earlier row of the same statement inserted counts).
\<close>

definition upsert :: "future_row \<Rightarrow> (nat \<times> nat \<rightharpoonup> perm_flags) \<Rightarrow> (nat \<times> nat \<rightharpoonup> perm_flags)" where
  "upsert f t =
     (case t (room f, user f) of
        None \<Rightarrow> t((room f, user f) \<mapsto> flags f)
      | Some live \<Rightarrow> t((room f, user f) \<mapsto> do_update (flags f) live))"

text \<open>
  The statement's \<^verbatim>\<open>rowcount\<close> is the number of rows inserted or updated, one for
  each selected row.
\<close>

definition apply_permission_updates_tx :: "timestamp \<Rightarrow> database \<Rightarrow> (nat, nat) flow \<times> database" where
  "apply_permission_updates_tx now d =
     (let selected = filter (\<lambda>f. at_time f \<le> now) (user_permission_futures d);
          d1 = d\<lparr>user_permission_overrides := foldl (\<lambda>t f. upsert f t) (user_permission_overrides d) selected\<rparr>;
          num_applied = length selected
      in if num_applied = 0 then (Return 0, d1)
         else (Continue num_applied,
               d1\<lparr>user_permission_futures := filter (\<lambda>f. \<not> at_time f \<le> now) (user_permission_futures d1)\<rparr>))"

definition apply_permission_updates :: "timestamp \<Rightarrow> world \<Rightarrow> exn \<times> world + nat \<times> world" where
  "apply_permission_updates now w =
     (case tx (apply_permission_updates_tx now) w of
        Inl failure \<Rightarrow> Inl failure
      | Inr (Return n, w1) \<Rightarrow> Inr (n, w1)
      | Inr (Continue num_applied, w1) \<Rightarrow>
          Inr (num_applied, emit (Log INFO (Applied_permission_updates num_applied)) w1))"

subsection \<open>cleanup\<close>

text \<open>
  The four arguments after the configuration are the values that the four operations read
  from the clock. The function returns the world only: an error of an operation ends in
  the \<^verbatim>\<open>except Exception\<close> clause.
\<close>

definition cleanup :: "config \<Rightarrow> timestamp \<Rightarrow> timestamp \<Rightarrow> timestamp \<Rightarrow> timestamp \<Rightarrow> world \<Rightarrow> world" where
  "cleanup cfg t1 t2 t3 t4 w =
     (case prune_files t1 (emit (Log DEBUG Pruning_expired_items) w) of
        Inl (e, w1) \<Rightarrow> emit (Log WARNING (Cleanup_failed e)) w1
      | Inr (files', w1) \<Rightarrow>
     (case prune_message_history cfg t2 w1 of
        Inl (e, w2) \<Rightarrow> emit (Log WARNING (Cleanup_failed e)) w2
      | Inr (msg_hist, w2) \<Rightarrow>
     (case prune_room_activity cfg t3 w2 of
        Inl (e, w3) \<Rightarrow> emit (Log WARNING (Cleanup_failed e)) w3
      | Inr (room_act, w3) \<Rightarrow>
     (case apply_permission_updates t4 w3 of
        Inl (e, w4) \<Rightarrow> emit (Log WARNING (Cleanup_failed e)) w4
      | Inr (perm_upd, w4) \<Rightarrow>
          emit (Log DEBUG (Pruned_summary files' msg_hist room_act perm_upd)) w4))))"

subsection \<open>Observations on a run\<close>

text \<open>
  The definitions of this part are not in the source; the properties below are stated with
  them. \<open>tx_ok\<close>: the store does not raise in the next transaction.
\<close>

definition tx_ok :: "world \<Rightarrow> bool" where
  "tx_ok w = (case faults w of [] \<Rightarrow> True | b # rest \<Rightarrow> \<not> b)"

text \<open>
  Readings of a trace: the paths \<^verbatim>\<open>os.unlink\<close> was called with, the paths it removed, the
  calls that raised something other than \<open>FileNotFoundError\<close>, the log records, and the ends
  of transactions.
\<close>

fun unlink_calls :: "event list \<Rightarrow> string list" where
  "unlink_calls [] = []"
| "unlink_calls (Unlink p r # evs) = p # unlink_calls evs"
| "unlink_calls (e # evs) = unlink_calls evs"

fun unlinked :: "event list \<Rightarrow> string list" where
  "unlinked [] = []"
| "unlinked (Unlink p None # evs) = p # unlinked evs"
| "unlinked (e # evs) = unlinked evs"

fun unlink_failures :: "event list \<Rightarrow> (string \<times> os_error) list" where
  "unlink_failures [] = []"
| "unlink_failures (Unlink p (Some x) # evs) =
     (if x = FileNotFoundError then unlink_failures evs else (p, x) # unlink_failures evs)"
| "unlink_failures (e # evs) = unlink_failures evs"

fun logged :: "event list \<Rightarrow> (level \<times> message) list" where
  "logged [] = []"
| "logged (Log l m # evs) = (l, m) # logged evs"
| "logged (e # evs) = logged evs"

fun transactions :: "event list \<Rightarrow> event list" where
  "transactions [] = []"
| "transactions (Commit # evs) = Commit # transactions evs"
| "transactions (Rollback # evs) = Rollback # transactions evs"
| "transactions (e # evs) = transactions evs"

text \<open>The events of the loop, as a function of the paths and the filesystem it starts in.\<close>

fun unlink_events :: "string list \<Rightarrow> (string \<rightharpoonup> entry) \<Rightarrow> event list" where
  "unlink_events [] f = []"
| "unlink_events (p # ps) f =
     (case f p of
        None \<Rightarrow> Unlink p (Some FileNotFoundError) # unlink_events ps f
      | Some Removable \<Rightarrow> Unlink p None # unlink_events ps (f(p := None))
      | Some Unremovable \<Rightarrow>
          Unlink p (Some PermissionError) # Log ERROR (Unable_to_remove p PermissionError) # unlink_events ps f)"

text \<open>The selection of \<open>prune_files\<close>, the two bounds and the futures that are due.\<close>

definition expired_paths :: "timestamp \<Rightarrow> world \<Rightarrow> string list" where
  "expired_paths now w = map path (filter (\<lambda>r. expiry r < now) (files (db w)))"

definition history_bound :: "config \<Rightarrow> timestamp \<Rightarrow> double" where
  "history_bound cfg now = float_sub now (float_mul (MESSAGE_HISTORY_PRUNE_THRESHOLD cfg) 86400)"

definition activity_bound :: "config \<Rightarrow> timestamp \<Rightarrow> double" where
  "activity_bound cfg now = float_sub now (float_mul (ROOM_ACTIVE_PRUNE_THRESHOLD cfg) 86400)"

definition due :: "timestamp \<Rightarrow> world \<Rightarrow> future_row list" where
  "due now w = filter (\<lambda>f. at_time f \<le> now) (user_permission_futures (db w))"

text \<open>
  The merge in the words of the specification, to be compared with \<open>do_update\<close> and
  \<open>upsert\<close>: each flag takes the future's value if it is present and retains the live value
  otherwise; a key without a live row takes the future's values as they are.
\<close>

definition spec_merge :: "perm_flags \<Rightarrow> perm_flags \<Rightarrow> perm_flags" where
  "spec_merge future live =
     \<lparr>read = (if read future \<noteq> None then read future else read live),
      write = (if write future \<noteq> None then write future else write live),
      upload = (if upload future \<noteq> None then upload future else upload live),
      banned = (if banned future \<noteq> None then banned future else banned live)\<rparr>"

definition spec_merge_row :: "perm_flags option \<Rightarrow> future_row \<Rightarrow> perm_flags option" where
  "spec_merge_row row f = Some (case row of None \<Rightarrow> flags f | Some live \<Rightarrow> spec_merge (flags f) live)"

subsection \<open>Concrete worlds\<close>

text \<open>
  Small stores and filesystems on which the properties are instantiated: three expired
  uploads and one that is not (the blob of B missing, or that of C not removable), an
  upload that expires exactly at the time of the run, rows at and just below the retention
  bounds (for thresholds of whole days, and for the double nearest to 0.001 days, where the
  computed bound is not the exact difference), scheduled permission changes, and a store
  that raises in its second transaction.
\<close>

definition scenario_db :: database where
  "scenario_db =
     \<lparr>files = [\<lparr>path = ''A'', expiry = 5\<rparr>, \<lparr>path = ''B'', expiry = 7\<rparr>,
               \<lparr>path = ''C'', expiry = 9\<rparr>, \<lparr>path = ''D'', expiry = 20\<rparr>],
      message_history = [], room_users = [],
      user_permission_overrides = Map.empty, user_permission_futures = []\<rparr>"

definition scenario_world :: world where
  "scenario_world =
     \<lparr>db = scenario_db,
      fs = [''A'' \<mapsto> Removable, ''C'' \<mapsto> Removable, ''D'' \<mapsto> Removable],
      faults = [], trace = []\<rparr>"

definition scenario_after :: world where
  "scenario_after =
     \<lparr>db = scenario_db\<lparr>files := [\<lparr>path = ''D'', expiry = 20\<rparr>]\<rparr>,
      fs = [''D'' \<mapsto> Removable],
      faults = [],
      trace = [Commit, Unlink ''A'' None, Unlink ''B'' (Some FileNotFoundError), Unlink ''C'' None,
               Log INFO (Pruned_files 3 (Some 2))]\<rparr>"

definition guarded_world :: world where
  "guarded_world =
     \<lparr>db = scenario_db,
      fs = [''A'' \<mapsto> Removable, ''C'' \<mapsto> Unremovable, ''D'' \<mapsto> Removable],
      faults = [], trace = []\<rparr>"

definition guarded_after :: world where
  "guarded_after =
     \<lparr>db = scenario_db\<lparr>files := [\<lparr>path = ''D'', expiry = 20\<rparr>]\<rparr>,
      fs = [''C'' \<mapsto> Unremovable, ''D'' \<mapsto> Removable],
      faults = [],
      trace = [Commit, Unlink ''A'' None, Unlink ''B'' (Some FileNotFoundError),
               Unlink ''C'' (Some PermissionError), Log ERROR (Unable_to_remove ''C'' PermissionError),
               Log INFO (Pruned_files 3 (Some 1))]\<rparr>"

definition boundary_world :: world where
  "boundary_world =
     \<lparr>db = scenario_db\<lparr>files := [\<lparr>path = ''F'', expiry = 10\<rparr>]\<rparr>,
      fs = [''F'' \<mapsto> Removable], faults = [], trace = []\<rparr>"

definition mixed_world :: world where
  "mixed_world =
     \<lparr>db = scenario_db\<lparr>files := [\<lparr>path = ''A'', expiry = 5\<rparr>, \<lparr>path = ''F'', expiry = 10\<rparr>,
                                   \<lparr>path = ''D'', expiry = 20\<rparr>]\<rparr>,
      fs = [''A'' \<mapsto> Removable, ''F'' \<mapsto> Removable, ''D'' \<mapsto> Removable], faults = [], trace = []\<rparr>"

definition mixed_after :: world where
  "mixed_after =
     \<lparr>db = scenario_db\<lparr>files := [\<lparr>path = ''D'', expiry = 20\<rparr>]\<rparr>,
      fs = [''F'' \<mapsto> Removable, ''D'' \<mapsto> Removable], faults = [],
      trace = [Commit, Unlink ''A'' None, Log INFO (Pruned_files 1 None)]\<rparr>"

definition retention_cfg :: config where
  "retention_cfg = \<lparr>MESSAGE_HISTORY_PRUNE_THRESHOLD = 30, ROOM_ACTIVE_PRUNE_THRESHOLD = 60\<rparr>"

definition retention_world :: world where
  "retention_world =
     \<lparr>db = scenario_db
        \<lparr>message_history := [\<lparr>message = 1, replaced = 6048000\<rparr>, \<lparr>message = 2, replaced = 6047999\<rparr>,
                             \<lparr>message = 3, replaced = 7000000\<rparr>],
         room_users := [\<lparr>active_room = 1, active_user = 1, last_active = 3456000\<rparr>,
                        \<lparr>active_room = 1, active_user = 2, last_active = 3455999\<rparr>]\<rparr>,
      fs = Map.empty, faults = [], trace = []\<rparr>"

definition history_after :: world where
  "history_after =
     retention_world
       \<lparr>db := db retention_world
          \<lparr>message_history := [\<lparr>message = 1, replaced = 6048000\<rparr>, \<lparr>message = 3, replaced = 7000000\<rparr>]\<rparr>,
        trace := [Commit, Log INFO (Pruned_history 1)]\<rparr>"

definition activity_after :: world where
  "activity_after =
     retention_world
       \<lparr>db := db retention_world
          \<lparr>room_users := [\<lparr>active_room = 1, active_user = 1, last_active = 3456000\<rparr>]\<rparr>,
        trace := [Commit, Log INFO (Pruned_room_activity 1)]\<rparr>"

definition perms_world :: world where
  "perms_world =
     \<lparr>db = scenario_db
        \<lparr>user_permission_overrides :=
           [(1, 7) \<mapsto> \<lparr>read = Some True, write = None, upload = Some True, banned = None\<rparr>],
         user_permission_futures :=
           [\<lparr>room = 1, user = 7, at_time = 50,
             flags = \<lparr>read = None, write = Some False, upload = None, banned = Some True\<rparr>\<rparr>,
            \<lparr>room = 2, user = 8, at_time = 100,
             flags = \<lparr>read = Some False, write = None, upload = None, banned = None\<rparr>\<rparr>,
            \<lparr>room = 1, user = 9, at_time = 200,
             flags = \<lparr>read = None, write = None, upload = Some False, banned = None\<rparr>\<rparr>]\<rparr>,
      fs = Map.empty, faults = [], trace = []\<rparr>"

definition perms_after :: world where
  "perms_after =
     \<lparr>db = scenario_db
        \<lparr>user_permission_overrides :=
           [(1, 7) \<mapsto> \<lparr>read = Some True, write = Some False, upload = Some True, banned = Some True\<rparr>,
            (2, 8) \<mapsto> \<lparr>read = Some False, write = None, upload = None, banned = None\<rparr>],
         user_permission_futures :=
           [\<lparr>room = 1, user = 9, at_time = 200,
             flags = \<lparr>read = None, write = None, upload = Some False, banned = None\<rparr>\<rparr>]\<rparr>,
      fs = Map.empty, faults = [],
      trace = [Commit, Log INFO (Applied_permission_updates 2)]\<rparr>"

definition faulty_world :: world where
  "faulty_world = scenario_world\<lparr>faults := [False, True]\<rparr>"

definition faulty_mid :: world where
  "faulty_mid =
     scenario_after
       \<lparr>faults := [True],
        trace := [Log DEBUG Pruning_expired_items, Commit, Unlink ''A'' None,
                  Unlink ''B'' (Some FileNotFoundError), Unlink ''C'' None,
                  Log INFO (Pruned_files 3 (Some 2))]\<rparr>"

definition faulty_after :: world where
  "faulty_after =
     scenario_after
       \<lparr>trace := [Log DEBUG Pruning_expired_items, Commit, Unlink ''A'' None,
                  Unlink ''B'' (Some FileNotFoundError), Unlink ''C'' None,
                  Log INFO (Pruned_files 3 (Some 2)), Rollback,
                  Log WARNING (Cleanup_failed StoreError)]\<rparr>"





section \<open>Properties\<close>

subsection \<open>Traces and transactions\<close>

lemma emit_simps [simp]:
  "db (emit e w) = db w" "fs (emit e w) = fs w" "faults (emit e w) = faults w"
  "trace (emit e w) = trace w @ [e]"
  by (simp_all add: emit_def)

lemma tx_ok_emit [simp]: "tx_ok (emit e w) = tx_ok w"
  by (simp add: tx_ok_def)

lemma unlink_calls_append [simp]: "unlink_calls (xs @ ys) = unlink_calls xs @ unlink_calls ys"
  by (induction xs rule: unlink_calls.induct) simp_all

lemma unlinked_append [simp]: "unlinked (xs @ ys) = unlinked xs @ unlinked ys"
  by (induction xs rule: unlinked.induct) simp_all

lemma unlink_failures_append [simp]: "unlink_failures (xs @ ys) = unlink_failures xs @ unlink_failures ys"
  by (induction xs rule: unlink_failures.induct) simp_all

lemma logged_append [simp]: "logged (xs @ ys) = logged xs @ logged ys"
  by (induction xs rule: logged.induct) simp_all

lemma transactions_append [simp]: "transactions (xs @ ys) = transactions xs @ transactions ys"
  by (induction xs rule: transactions.induct) simp_all

lemma set_unlink_calls: "Unlink p r \<in> set evs \<Longrightarrow> p \<in> set (unlink_calls evs)"
  by (induction evs rule: unlink_calls.induct) auto

lemma set_unlinked: "p \<in> set (unlinked evs) \<longleftrightarrow> Unlink p None \<in> set evs"
  by (induction evs rule: unlinked.induct) auto

lemma tx_succeeds:
  "tx_ok w \<Longrightarrow> tx work w = Inr (fst (work (db w)), emit Commit (w\<lparr>db := snd (work (db w)), faults := tl (faults w)\<rparr>))"
  by (auto simp: tx_def tx_ok_def split: list.splits if_splits prod.splits)

lemma tx_fails:
  "\<not> tx_ok w \<Longrightarrow> tx work w = Inl (StoreError, emit Rollback (w\<lparr>faults := tl (faults w)\<rparr>))"
  by (auto simp: tx_def tx_ok_def split: list.splits if_splits prod.splits)

subsection \<open>The unlink loop\<close>

lemma unlink_loop_db [simp]: "db (snd (unlink_loop ps c w)) = db w"
  by (induction ps arbitrary: c w) (auto split: sum.splits os_error.splits)

lemma unlink_loop_faults [simp]: "faults (snd (unlink_loop ps c w)) = faults w"
  by (induction ps arbitrary: c w) (auto split: sum.splits os_error.splits)

lemma unlink_loop_fs:
  "fs (snd (unlink_loop ps c w)) q = (if q \<in> set ps \<and> fs w q = Some Removable then None else fs w q)"
  by (induction ps arbitrary: c w) (auto simp: os_unlink_def split: sum.splits os_error.splits option.splits entry.splits)

lemma unlink_loop_trace:
  "trace (snd (unlink_loop ps c w)) = trace w @ unlink_events ps (fs w)"
  by (induction ps arbitrary: c w) (auto simp: os_unlink_def split: sum.splits os_error.splits option.splits entry.splits)

lemma unlink_loop_count:
  "fst (unlink_loop ps c w) = c + length (unlinked (unlink_events ps (fs w)))"
  by (induction ps arbitrary: c w) (auto simp: os_unlink_def split: sum.splits os_error.splits option.splits entry.splits)

lemma unlink_events_calls [simp]: "unlink_calls (unlink_events ps f) = ps"
  by (induction ps arbitrary: f) (auto split: option.splits entry.splits)

lemma unlink_events_transactions [simp]: "transactions (unlink_events ps f) = []"
  by (induction ps arbitrary: f) (auto split: option.splits entry.splits)

lemma unlink_events_logged:
  "logged (unlink_events ps f) = map (\<lambda>(p, x). (ERROR, Unable_to_remove p x)) (unlink_failures (unlink_events ps f))"
  by (induction ps arbitrary: f) (auto split: option.splits entry.splits)

lemma unlink_events_unremovable:
  "p \<in> set ps \<Longrightarrow> f p = Some Unremovable \<Longrightarrow> Unlink p (Some PermissionError) \<in> set (unlink_events ps f)"
proof (induction ps arbitrary: f)
  case Nil
  then show ?case by simp
next
  case (Cons a ps)
  show ?case
  proof (cases "f a")
    case None
    with Cons show ?thesis by auto
  next
    case (Some x)
    show ?thesis
    proof (cases x)
      case Removable
      with Some Cons.prems have "a \<noteq> p" and "p \<in> set ps" by auto
      then have "(f(a := None)) p = Some Unremovable" using Cons.prems by simp
      with \<open>p \<in> set ps\<close> have "Unlink p (Some PermissionError) \<in> set (unlink_events ps (f(a := None)))"
        by (rule Cons.IH)
      then show ?thesis using Some Removable by simp
    next
      case Unremovable
      with Some Cons show ?thesis by auto
    qed
  qed
qed

lemma unlink_events_removed:
  "Unlink p None \<in> set (unlink_events ps f) \<Longrightarrow> f p = Some Removable"
proof (induction ps arbitrary: f)
  case Nil
  then show ?case by simp
next
  case (Cons a ps)
  show ?case
  proof (cases "f a")
    case None
    with Cons show ?thesis by auto
  next
    case (Some x)
    show ?thesis
    proof (cases x)
      case Removable
      show ?thesis
      proof (cases "p = a")
        case True
        with Some Removable show ?thesis by simp
      next
        case False
        with Cons.prems Some Removable have "Unlink p None \<in> set (unlink_events ps (f(a := None)))"
          by simp
        then have "(f(a := None)) p = Some Removable" by (rule Cons.IH)
        with False show ?thesis by simp
      qed
    next
      case Unremovable
      with Some Cons show ?thesis by auto
    qed
  qed
qed

subsection \<open>The operations in closed form\<close>

text \<open>
  Each operation fails exactly when the store raises in its transaction, and then leaves
  the world it found, with the rollback recorded.
\<close>

lemma prune_files_eq:
  "prune_files now w =
     (if \<not> tx_ok w then Inl (StoreError, emit Rollback (w\<lparr>faults := tl (faults w)\<rparr>))
      else if expired_paths now w = [] then Inr (0, emit Commit (w\<lparr>faults := tl (faults w)\<rparr>))
      else Inr (length (expired_paths now w),
             emit (Log INFO (Pruned_files (length (expired_paths now w))
                     (if length (unlinked (unlink_events (expired_paths now w) (fs w))) \<noteq> length (expired_paths now w)
                      then Some (length (unlinked (unlink_events (expired_paths now w) (fs w)))) else None)))
               (snd (unlink_loop (expired_paths now w) 0
                  (emit Commit (w\<lparr>db := db w\<lparr>files := filter (\<lambda>r. \<not> expiry r \<le> now) (files (db w))\<rparr>,
                                  faults := tl (faults w)\<rparr>))))))"
proof (cases "tx_ok w")
  case False
  then show ?thesis by (simp add: prune_files_def tx_fails)
next
  case True
  show ?thesis
  proof (cases "expired_paths now w = []")
    case True
    with \<open>tx_ok w\<close> show ?thesis
      by (simp add: prune_files_def tx_succeeds prune_files_tx_def expired_paths_def)
  next
    case False
    with \<open>tx_ok w\<close> show ?thesis
      by (simp add: prune_files_def tx_succeeds prune_files_tx_def expired_paths_def Let_def
            split_beta unlink_loop_count)
  qed
qed

lemma prune_files_Inr:
  assumes "prune_files now w = Inr (n, w')"
  shows "tx_ok w"
    and "n = length (expired_paths now w)"
    and "files (db w') = (if expired_paths now w = [] then files (db w)
                          else filter (\<lambda>r. \<not> expiry r \<le> now) (files (db w)))"
    and "faults w' = tl (faults w)"
    and "fs w' q = (if q \<in> set (expired_paths now w) \<and> fs w q = Some Removable then None else fs w q)"
    and "trace w' = trace w @ Commit #
           (if expired_paths now w = [] then []
            else unlink_events (expired_paths now w) (fs w) @
                 [Log INFO (Pruned_files (length (expired_paths now w))
                    (if length (unlinked (unlink_events (expired_paths now w) (fs w))) \<noteq> length (expired_paths now w)
                     then Some (length (unlinked (unlink_events (expired_paths now w) (fs w)))) else None))])"
  using assms
  by (auto simp: prune_files_eq unlink_loop_fs unlink_loop_trace split: if_splits)

lemma prune_files_Inl:
  assumes "prune_files now w = Inl (e, w')"
  shows "\<not> tx_ok w" and "e = StoreError" and "w' = emit Rollback (w\<lparr>faults := tl (faults w)\<rparr>)"
  using assms by (auto simp: prune_files_eq split: if_splits)

lemma prune_files_succeeds:
  "tx_ok w \<Longrightarrow> \<exists>w'. prune_files now w = Inr (length (expired_paths now w), w')"
  by (cases "expired_paths now w = []") (simp_all add: prune_files_eq)

lemma prune_files_commits:
  "prune_files now w = Inr (n, w') \<Longrightarrow>
     faults w' = tl (faults w) \<and> transactions (trace w') = transactions (trace w) @ [Commit]"
  by (auto simp: prune_files_eq unlink_loop_trace split: if_splits)


lemma prune_message_history_eq:
  "prune_message_history cfg now w =
     (if \<not> tx_ok w then Inl (StoreError, emit Rollback (w\<lparr>faults := tl (faults w)\<rparr>))
      else Inr (length (filter (\<lambda>r. sql_less (replaced r) (history_bound cfg now)) (message_history (db w))),
             (if filter (\<lambda>r. sql_less (replaced r) (history_bound cfg now)) (message_history (db w)) = [] then (\<lambda>v. v)
              else emit (Log INFO (Pruned_history
                     (length (filter (\<lambda>r. sql_less (replaced r) (history_bound cfg now)) (message_history (db w)))))))
               (emit Commit
                  (w\<lparr>db := db w\<lparr>message_history :=
                                   filter (\<lambda>r. \<not> sql_less (replaced r) (history_bound cfg now)) (message_history (db w))\<rparr>,
                     faults := tl (faults w)\<rparr>))))"
  by (simp add: prune_message_history_def tx_succeeds tx_fails prune_message_history_tx_def history_bound_def)

lemma prune_message_history_Inl:
  "prune_message_history cfg now w = Inl (e, w') \<Longrightarrow>
     e = StoreError \<and> w' = emit Rollback (w\<lparr>faults := tl (faults w)\<rparr>)"
  by (auto simp: prune_message_history_eq split: if_splits)

lemma prune_message_history_succeeds:
  "tx_ok w \<Longrightarrow> \<exists>n w'. prune_message_history cfg now w = Inr (n, w')"
  by (simp add: prune_message_history_eq)

lemma prune_message_history_commits:
  "prune_message_history cfg now w = Inr (n, w') \<Longrightarrow>
     faults w' = tl (faults w) \<and> transactions (trace w') = transactions (trace w) @ [Commit]"
  by (auto simp: prune_message_history_eq split: if_splits)

lemma prune_room_activity_eq:
  "prune_room_activity cfg now w =
     (if \<not> tx_ok w then Inl (StoreError, emit Rollback (w\<lparr>faults := tl (faults w)\<rparr>))
      else Inr (length (filter (\<lambda>r. sql_less (last_active r) (activity_bound cfg now)) (room_users (db w))),
             (if filter (\<lambda>r. sql_less (last_active r) (activity_bound cfg now)) (room_users (db w)) = [] then (\<lambda>v. v)
              else emit (Log INFO (Pruned_room_activity
                     (length (filter (\<lambda>r. sql_less (last_active r) (activity_bound cfg now)) (room_users (db w)))))))
               (emit Commit
                  (w\<lparr>db := db w\<lparr>room_users :=
                                   filter (\<lambda>r. \<not> sql_less (last_active r) (activity_bound cfg now)) (room_users (db w))\<rparr>,
                     faults := tl (faults w)\<rparr>))))"
  by (simp add: prune_room_activity_def tx_succeeds tx_fails prune_room_activity_tx_def activity_bound_def)

lemma prune_room_activity_Inl:
  "prune_room_activity cfg now w = Inl (e, w') \<Longrightarrow>
     e = StoreError \<and> w' = emit Rollback (w\<lparr>faults := tl (faults w)\<rparr>)"
  by (auto simp: prune_room_activity_eq split: if_splits)

lemma prune_room_activity_succeeds:
  "tx_ok w \<Longrightarrow> \<exists>n w'. prune_room_activity cfg now w = Inr (n, w')"
  by (simp add: prune_room_activity_eq)

lemma prune_room_activity_commits:
  "prune_room_activity cfg now w = Inr (n, w') \<Longrightarrow>
     faults w' = tl (faults w) \<and> transactions (trace w') = transactions (trace w) @ [Commit]"
  by (auto simp: prune_room_activity_eq split: if_splits)

lemma do_update_spec_merge: "do_update x live = spec_merge x live"
  by (simp add: do_update_def spec_merge_def coalesce_def split: option.splits)

lemma upsert_apply:
  "upsert f t k = (if (room f, user f) = k then spec_merge_row (t k) f else t k)"
  by (simp add: upsert_def spec_merge_row_def do_update_spec_merge split: option.splits)

lemma foldl_upsert_apply:
  "foldl (\<lambda>t f. upsert f t) t rows k = foldl spec_merge_row (t k) (filter (\<lambda>f. (room f, user f) = k) rows)"
  by (induction rows arbitrary: t) (simp_all add: upsert_apply)

lemma apply_permission_updates_eq:
  "apply_permission_updates now w =
     (if \<not> tx_ok w then Inl (StoreError, emit Rollback (w\<lparr>faults := tl (faults w)\<rparr>))
      else if due now w = [] then Inr (0, emit Commit (w\<lparr>faults := tl (faults w)\<rparr>))
      else Inr (length (due now w),
             emit (Log INFO (Applied_permission_updates (length (due now w))))
               (emit Commit
                  (w\<lparr>db := db w
                       \<lparr>user_permission_overrides :=
                          foldl (\<lambda>t f. upsert f t) (user_permission_overrides (db w)) (due now w),
                        user_permission_futures :=
                          filter (\<lambda>f. \<not> at_time f \<le> now) (user_permission_futures (db w))\<rparr>,
                     faults := tl (faults w)\<rparr>))))"
proof (cases "tx_ok w")
  case False
  then show ?thesis by (simp add: apply_permission_updates_def tx_fails)
next
  case True
  show ?thesis
  proof (cases "due now w = []")
    case True
    with \<open>tx_ok w\<close> show ?thesis
      by (simp add: apply_permission_updates_def tx_succeeds apply_permission_updates_tx_def due_def)
  next
    case False
    with \<open>tx_ok w\<close> show ?thesis
      by (simp add: apply_permission_updates_def tx_succeeds apply_permission_updates_tx_def due_def Let_def)
  qed
qed

lemma apply_permission_updates_Inl:
  "apply_permission_updates now w = Inl (e, w') \<Longrightarrow>
     e = StoreError \<and> w' = emit Rollback (w\<lparr>faults := tl (faults w)\<rparr>)"
  by (auto simp: apply_permission_updates_eq split: if_splits)

lemma apply_permission_updates_succeeds:
  "tx_ok w \<Longrightarrow> \<exists>n w'. apply_permission_updates now w = Inr (n, w')"
  by (simp add: apply_permission_updates_eq)

lemma apply_permission_updates_commits:
  "apply_permission_updates now w = Inr (n, w') \<Longrightarrow>
     faults w' = tl (faults w) \<and> transactions (trace w') = transactions (trace w) @ [Commit]"
  by (auto simp: apply_permission_updates_eq split: if_splits)

subsection \<open>A tick without store failure\<close>

lemma tx_ok_take: "True \<notin> set (take (Suc k) (faults w)) \<Longrightarrow> tx_ok w"
  by (cases "faults w") (auto simp: tx_ok_def)

lemma take_tl_faults: "True \<notin> set (take (Suc k) xs) \<Longrightarrow> True \<notin> set (take k (tl xs))"
  by (cases xs) auto

lemma cleanup_full_tick:
  assumes "True \<notin> set (take 4 (faults v))"
  shows "\<exists>a b c d w1 w2 w3 w4.
           prune_files s1 (emit (Log DEBUG Pruning_expired_items) v) = Inr (a, w1) \<and>
           prune_message_history cfg s2 w1 = Inr (b, w2) \<and>
           prune_room_activity cfg s3 w2 = Inr (c, w3) \<and>
           apply_permission_updates s4 w3 = Inr (d, w4) \<and>
           cleanup cfg s1 s2 s3 s4 v = emit (Log DEBUG (Pruned_summary a b c d)) w4 \<and>
           transactions (trace (cleanup cfg s1 s2 s3 s4 v)) =
             transactions (trace v) @ [Commit, Commit, Commit, Commit]"
proof -
  let ?v0 = "emit (Log DEBUG Pruning_expired_items) v"
  have f0: "True \<notin> set (take (Suc 3) (faults ?v0))" using assms by (simp add: numeral_eq_Suc)
  then have "tx_ok ?v0" by (rule tx_ok_take)
  from prune_files_succeeds[OF this, of s1] obtain a w1 where
    r1: "prune_files s1 ?v0 = Inr (a, w1)" by blast
  note p1 = prune_files_commits[OF r1]
  from f0 p1 have f1: "True \<notin> set (take (Suc 2) (faults w1))"
    by (simp add: take_tl_faults numeral_eq_Suc)
  then have "tx_ok w1" by (rule tx_ok_take)
  from prune_message_history_succeeds[OF this, of cfg s2] obtain b w2 where
    r2: "prune_message_history cfg s2 w1 = Inr (b, w2)" by blast
  note p2 = prune_message_history_commits[OF r2]
  from f1 p2 have f2: "True \<notin> set (take (Suc 1) (faults w2))"
    by (simp add: take_tl_faults numeral_eq_Suc)
  then have "tx_ok w2" by (rule tx_ok_take)
  from prune_room_activity_succeeds[OF this, of cfg s3] obtain c w3 where
    r3: "prune_room_activity cfg s3 w2 = Inr (c, w3)" by blast
  note p3 = prune_room_activity_commits[OF r3]
  from f2 p3 have f3: "True \<notin> set (take (Suc 0) (faults w3))"
    by (simp add: take_tl_faults)
  then have "tx_ok w3" by (rule tx_ok_take)
  from apply_permission_updates_succeeds[OF this, of s4] obtain d w4 where
    r4: "apply_permission_updates s4 w3 = Inr (d, w4)" by blast
  note p4 = apply_permission_updates_commits[OF r4]
  have c: "cleanup cfg s1 s2 s3 s4 v = emit (Log DEBUG (Pruned_summary a b c d)) w4"
    using r1 r2 r3 r4 by (simp add: cleanup_def)
  have "transactions (trace (cleanup cfg s1 s2 s3 s4 v)) =
             transactions (trace v) @ [Commit, Commit, Commit, Commit]"
    unfolding c using p1 p2 p3 p4 by simp
  with r1 r2 r3 r4 c show ?thesis by blast
qed

subsection \<open>Evaluation on concrete worlds\<close>

lemma floor_rat_numeral [simp]:
  "\<lfloor>(numeral a :: rat) / numeral b\<rfloor> = numeral a div numeral b"
  "\<lfloor>(1 :: rat) / numeral b\<rfloor> = 1 div numeral b"
  "\<lfloor>- ((numeral a :: rat) / numeral b)\<rfloor> = - numeral a div numeral b"
  "\<lfloor>- ((1 :: rat) / numeral b)\<rfloor> = - 1 div numeral b"
  using floor_divide_of_int_eq[of "numeral a" "numeral b", where ?'a = rat]
    floor_divide_of_int_eq[of 1 "numeral b", where ?'a = rat]
    floor_divide_of_int_eq[of "- numeral a" "numeral b", where ?'a = rat]
    floor_divide_of_int_eq[of "- 1" "numeral b", where ?'a = rat]
  by simp_all

lemma ceiling_rat_numeral [simp]:
  "\<lceil>(numeral a :: rat) / numeral b\<rceil> = - (- numeral a div numeral b)"
  "\<lceil>(1 :: rat) / numeral b\<rceil> = - (- 1 div numeral b)"
  unfolding ceiling_def by simp_all

lemmas float_defs = float_mul_def round_double_def exponent_def round_half_even_def pow2_def
  Let_def bit_length.simps

lemmas run_defs = prune_files_def tx_def prune_files_tx_def emit_def os_unlink_def fun_eq_iff

lemmas perms_defs = apply_permission_updates_def apply_permission_updates_tx_def tx_def emit_def
  upsert_def do_update_def coalesce_def fun_eq_iff

subsection \<open>Properties of prune\_files\<close>

text \<open>
  C9. When the store does not raise, \<open>prune_files\<close> returns the number of file rows with
  \<open>expiry < now\<close>, for the one value \<open>now\<close> of the run. When there is no such row, the
  store and the filesystem are unchanged and the only event is the commit of the empty
  transaction. No row with \<open>expiry < now\<close> remains, and the rows with \<open>now < expiry\<close> are
  the same as before. In the scenario of three expired rows and one other row, which
  expires after \<open>now\<close>, the result is 3 and the table holds that row only.
\<close>

theorem prune_files_returns_count:
  assumes "tx_ok w"
  shows "\<exists>w'. prune_files now w = Inr (length (filter (\<lambda>r. expiry r < now) (files (db w))), w') \<and>
           (filter (\<lambda>r. expiry r < now) (files (db w)) = [] \<longrightarrow>
              db w' = db w \<and> fs w' = fs w \<and> trace w' = trace w @ [Commit]) \<and>
           filter (\<lambda>r. expiry r < now) (files (db w')) = [] \<and>
           filter (\<lambda>r. now < expiry r) (files (db w')) = filter (\<lambda>r. now < expiry r) (files (db w)) \<and>
           (\<forall>d. length (filter (\<lambda>r. expiry r < now) (files (db w))) = 3 \<and>
              filter (\<lambda>r. \<not> expiry r < now) (files (db w)) = [d] \<and> now < expiry d \<longrightarrow>
              files (db w') = [d])"
proof -
  let ?n = "length (filter (\<lambda>r. expiry r < now) (files (db w)))"
  have len: "length (expired_paths now w) = ?n" by (simp add: expired_paths_def)
  have emp: "expired_paths now w = [] \<longleftrightarrow> filter (\<lambda>r. expiry r < now) (files (db w)) = []"
    by (simp add: expired_paths_def)
  from prune_files_succeeds[OF assms, of now] obtain w' where run: "prune_files now w = Inr (?n, w')"
    unfolding len by blast
  note facts = prune_files_Inr[OF run]
  have none: "db w' = db w \<and> fs w' = fs w \<and> trace w' = trace w @ [Commit]"
    if "filter (\<lambda>r. expiry r < now) (files (db w)) = []"
    using that run assms emp by (auto simp: prune_files_eq split: if_splits)
  have gone: "filter (\<lambda>r. expiry r < now) (files (db w')) = []"
    using facts(3) emp by (auto simp: filter_empty_conv)
  have kept: "filter (\<lambda>r. now < expiry r) (files (db w')) = filter (\<lambda>r. now < expiry r) (files (db w))"
  proof (cases "expired_paths now w = []")
    case True
    with facts(3) show ?thesis by simp
  next
    case False
    have "(\<not> expiry r \<le> now \<and> now < expiry r) = (now < expiry r)" for r :: file_row by auto
    with False facts(3) show ?thesis by simp
  qed
  have scen: "files (db w') = [d]"
    if "?n = 3" "filter (\<lambda>r. \<not> expiry r < now) (files (db w)) = [d]" "now < expiry d" for d
  proof -
    from that(1) have "expired_paths now w \<noteq> []" using len by auto
    with facts(3) have "files (db w') = filter (\<lambda>r. \<not> expiry r \<le> now) (files (db w))" by simp
    also have "\<dots> = filter (\<lambda>r. \<not> expiry r \<le> now) (filter (\<lambda>r. \<not> expiry r < now) (files (db w)))"
    proof -
      have "(\<not> expiry r < now \<and> \<not> expiry r \<le> now) = (\<not> expiry r \<le> now)" for r :: file_row
        by auto
      then show ?thesis by simp
    qed
    also have "\<dots> = [d]" using that(2,3) by simp
    finally show ?thesis .
  qed
  from run none gone kept scen show ?thesis by blast
qed

theorem prune_files_returns_count_witness:
  "tx_ok scenario_world \<and>
   prune_files 10 scenario_world = Inr (3, scenario_after) \<and>
   files (db scenario_after) = [\<lparr>path = ''D'', expiry = 20\<rparr>] \<and>
   tx_ok boundary_world \<and>
   prune_files 10 boundary_world = Inr (0, emit Commit boundary_world) \<and>
   db (emit Commit boundary_world) = db boundary_world \<and>
   fs (emit Commit boundary_world) = fs boundary_world \<and>
   trace (emit Commit boundary_world) = trace boundary_world @ [Commit]"
proof -
  have ok1: "tx_ok scenario_world" by (simp add: tx_ok_def scenario_world_def)
  have ok2: "tx_ok boundary_world" by (simp add: tx_ok_def boundary_world_def)
  have n1: "length (filter (\<lambda>r. expiry r < 10) (files (db scenario_world))) = 3"
    by (simp add: scenario_world_def scenario_db_def)
  have n2: "filter (\<lambda>r. expiry r < 10) (files (db boundary_world)) = []"
    by (simp add: boundary_world_def scenario_db_def)
  have run1: "prune_files 10 scenario_world = Inr (3, scenario_after)"
    by (simp add: run_defs scenario_world_def scenario_after_def scenario_db_def)
  from prune_files_returns_count[OF ok1, of 10] obtain w1 where
    r1: "prune_files 10 scenario_world = Inr (length (filter (\<lambda>r. expiry r < 10) (files (db scenario_world))), w1)" and
    s1: "\<forall>d. length (filter (\<lambda>r. expiry r < 10) (files (db scenario_world))) = 3 \<and>
              filter (\<lambda>r. \<not> expiry r < 10) (files (db scenario_world)) = [d] \<and> 10 < expiry d \<longrightarrow>
              files (db w1) = [d]"
    by blast
  from r1 run1 have w1: "w1 = scenario_after" by simp
  have "filter (\<lambda>r. \<not> expiry r < 10) (files (db scenario_world)) = [\<lparr>path = ''D'', expiry = 20\<rparr>] \<and>
        10 < expiry \<lparr>path = ''D'', expiry = 20\<rparr>"
    by (simp add: scenario_world_def scenario_db_def)
  with s1 n1 have d: "files (db scenario_after) = [\<lparr>path = ''D'', expiry = 20\<rparr>]"
    unfolding w1 by blast
  from prune_files_returns_count[OF ok2, of 10] obtain w2 where
    r2: "prune_files 10 boundary_world = Inr (length (filter (\<lambda>r. expiry r < 10) (files (db boundary_world))), w2)" and
    s2: "filter (\<lambda>r. expiry r < 10) (files (db boundary_world)) = [] \<longrightarrow>
              db w2 = db boundary_world \<and> fs w2 = fs boundary_world \<and> trace w2 = trace boundary_world @ [Commit]"
    by blast
  have run2: "prune_files 10 boundary_world = Inr (0, emit Commit boundary_world)"
    by (simp add: run_defs boundary_world_def scenario_db_def)
  from r2 run2 have w2: "w2 = emit Commit boundary_world" by (simp add: n2)
  from s2 n2 have "db (emit Commit boundary_world) = db boundary_world \<and>
     fs (emit Commit boundary_world) = fs boundary_world \<and>
     trace (emit Commit boundary_world) = trace boundary_world @ [Commit]"
    unfolding w2 by blast
  with ok1 ok2 run1 run2 d show ?thesis by blast
qed

text \<open>
  C1. When \<open>prune_files\<close> returns, no file row with \<open>expiry < now\<close> is left in the store.
  The events the run adds to the trace start with the commit of its transaction; after it
  come the calls of \<^verbatim>\<open>os.unlink\<close>, one for the path of each such row in the order of
  the selection, and no rollback. For each of these rows the path holds nothing on disk
  afterwards, unless its removal raised an error other than \<open>FileNotFoundError\<close>.
\<close>

theorem prune_files_removes_expired:
  assumes "prune_files now w = Inr (n, w')"
  shows "(\<forall>r \<in> set (files (db w')). \<not> expiry r < now) \<and>
         (\<exists>evs. trace w' = trace w @ Commit # evs \<and> transactions evs = [] \<and>
            unlink_calls evs = map path (filter (\<lambda>r. expiry r < now) (files (db w))) \<and>
            (\<forall>r \<in> set (files (db w)). expiry r < now \<longrightarrow>
               fs w' (path r) = None \<or>
               (\<exists>x. x \<noteq> FileNotFoundError \<and> Unlink (path r) (Some x) \<in> set evs)))"
proof -
  note run = prune_files_Inr[OF assms]
  let ?sel = "expired_paths now w"
  have gone: "\<forall>r \<in> set (files (db w')). \<not> expiry r < now"
  proof (cases "?sel = []")
    case True
    then have "filter (\<lambda>r. expiry r < now) (files (db w)) = []" by (simp add: expired_paths_def)
    then have "\<forall>r \<in> set (files (db w)). \<not> expiry r < now" by (simp add: filter_empty_conv)
    with True run(3) show ?thesis by simp
  next
    case False
    with run(3) show ?thesis by auto
  qed
  define evs where "evs = (if ?sel = [] then []
            else unlink_events ?sel (fs w) @
                 [Log INFO (Pruned_files (length ?sel)
                    (if length (unlinked (unlink_events ?sel (fs w))) \<noteq> length ?sel
                     then Some (length (unlinked (unlink_events ?sel (fs w)))) else None))])"
  have tr: "trace w' = trace w @ Commit # evs" using run(6) by (simp add: evs_def)
  have txs: "transactions evs = []" by (simp add: evs_def)
  have calls: "unlink_calls evs = map path (filter (\<lambda>r. expiry r < now) (files (db w)))"
    by (simp add: evs_def) (simp add: expired_paths_def)
  have blobs: "fs w' (path r) = None \<or> (\<exists>x. x \<noteq> FileNotFoundError \<and> Unlink (path r) (Some x) \<in> set evs)"
    if r: "r \<in> set (files (db w))" "expiry r < now" for r
  proof -
    from r have mem: "path r \<in> set ?sel" by (auto simp: expired_paths_def)
    then have ne: "?sel \<noteq> []" by auto
    show ?thesis
    proof (cases "fs w (path r)")
      case None
      then show ?thesis using run(5)[of "path r"] by simp
    next
      case (Some x)
      show ?thesis
      proof (cases x)
        case Removable
        with Some mem show ?thesis using run(5)[of "path r"] by simp
      next
        case Unremovable
        with Some have "Unlink (path r) (Some PermissionError) \<in> set (unlink_events ?sel (fs w))"
          using mem by (simp add: unlink_events_unremovable)
        then have "Unlink (path r) (Some PermissionError) \<in> set evs" using ne by (simp add: evs_def)
        then show ?thesis by blast
      qed
    qed
  qed
  from gone tr txs calls blobs show ?thesis by blast
qed

theorem prune_files_removes_expired_witness:
  "prune_files 10 guarded_world = Inr (3, guarded_after) \<and>
   filter (\<lambda>r. expiry r < 10) (files (db guarded_after)) = [] \<and>
   (\<exists>evs. trace guarded_after = trace guarded_world @ Commit # evs \<and> transactions evs = [] \<and>
      unlink_calls evs = [''A'', ''B'', ''C'']) \<and>
   fs guarded_after ''A'' = None \<and> fs guarded_after ''B'' = None \<and>
   fs guarded_after ''C'' = Some Unremovable"
proof -
  have run: "prune_files 10 guarded_world = Inr (3, guarded_after)"
    by (simp add: run_defs guarded_world_def guarded_after_def scenario_db_def)
  from prune_files_removes_expired[OF run] obtain evs where
    gone: "\<forall>r \<in> set (files (db guarded_after)). \<not> expiry r < 10" and
    tr: "trace guarded_after = trace guarded_world @ Commit # evs" and
    txs: "transactions evs = []" and
    calls: "unlink_calls evs = map path (filter (\<lambda>r. expiry r < 10) (files (db guarded_world)))"
    by blast
  from gone have "filter (\<lambda>r. expiry r < 10) (files (db guarded_after)) = []"
    by (simp only: filter_empty_conv)
  moreover from calls have "unlink_calls evs = [''A'', ''B'', ''C'']"
    by (simp add: guarded_world_def scenario_db_def)
  with tr txs have "\<exists>evs. trace guarded_after = trace guarded_world @ Commit # evs \<and>
      transactions evs = [] \<and> unlink_calls evs = [''A'', ''B'', ''C'']"
    by blast
  moreover have "fs guarded_after ''A'' = None" "fs guarded_after ''B'' = None"
    "fs guarded_after ''C'' = Some Unremovable"
    by (simp_all add: guarded_after_def)
  ultimately show ?thesis using run by blast
qed

text \<open>
  C3 as stated ("for every store state") fails: in a store whose only file row expires
  exactly at \<open>now\<close> the selection \<open>expiry < now\<close> is empty, the function returns 0 before
  the DELETE, and the row stays.
\<close>

theorem prune_files_boundary_kept_counterexample:
  "prune_files 10 boundary_world = Inr (0, emit Commit boundary_world) \<and>
   expiry \<lparr>path = ''F'', expiry = 10\<rparr> = 10 \<and>
   \<lparr>path = ''F'', expiry = 10\<rparr> \<in> set (files (db boundary_world)) \<and>
   \<lparr>path = ''F'', expiry = 10\<rparr> \<in> set (files (db (emit Commit boundary_world)))"
  by (simp add: run_defs boundary_world_def scenario_db_def)

text \<open>
  C3 (as amended). A file row whose expiry equals \<open>now\<close> is deleted by a run of
  \<open>prune_files\<close> that finds at least one row with \<open>expiry < now\<close>: then the selection is
  not empty and the \<^verbatim>\<open>DELETE ... WHERE expiry <= ?\<close> is executed.
\<close>

theorem prune_files_boundary_deleted:
  assumes "prune_files now w = Inr (n, w')"
    and "\<exists>r \<in> set (files (db w)). expiry r < now"
  shows "\<forall>r \<in> set (files (db w)). expiry r = now \<longrightarrow> r \<notin> set (files (db w'))"
proof -
  from assms(2) have "expired_paths now w \<noteq> []"
    by (auto simp: expired_paths_def filter_empty_conv)
  with prune_files_Inr(3)[OF assms(1)] show ?thesis by simp
qed

theorem prune_files_boundary_deleted_witness:
  "prune_files 10 mixed_world = Inr (1, mixed_after) \<and>
   \<lparr>path = ''A'', expiry = 5\<rparr> \<in> set (files (db mixed_world)) \<and>
   expiry \<lparr>path = ''A'', expiry = 5\<rparr> < 10 \<and>
   \<lparr>path = ''F'', expiry = 10\<rparr> \<in> set (files (db mixed_world)) \<and>
   \<lparr>path = ''F'', expiry = 10\<rparr> \<notin> set (files (db mixed_after))"
proof -
  have run: "prune_files 10 mixed_world = Inr (1, mixed_after)"
    by (simp add: run_defs mixed_world_def mixed_after_def scenario_db_def)
  have a: "\<lparr>path = ''A'', expiry = 5\<rparr> \<in> set (files (db mixed_world))"
    and f: "\<lparr>path = ''F'', expiry = 10\<rparr> \<in> set (files (db mixed_world))"
    by (simp_all add: mixed_world_def scenario_db_def)
  have "\<exists>r \<in> set (files (db mixed_world)). expiry r < 10"
    using a by (rule bexI[rotated]) simp
  from prune_files_boundary_deleted[OF run this] f
  have "\<lparr>path = ''F'', expiry = 10\<rparr> \<notin> set (files (db mixed_after))" by simp
  with run a f show ?thesis by simp
qed

text \<open>
  C10. When some row has \<open>expiry < now\<close>, the run returns the number of those rows, but the
  store loses these and the rows with \<open>expiry = now\<close> as well: if there is one of the
  latter, the returned count is strictly smaller than the number of rows deleted. When no
  row has \<open>expiry < now\<close>, the run returns 0 and the table is unchanged, rows with
  \<open>expiry = now\<close> included.
\<close>

theorem prune_files_count_vs_deleted:
  assumes "prune_files now w = Inr (n, w')"
  shows "((\<exists>r \<in> set (files (db w)). expiry r < now) \<longrightarrow>
            n = length (filter (\<lambda>r. expiry r < now) (files (db w))) \<and>
            length (files (db w)) =
              length (files (db w')) + n + length (filter (\<lambda>r. expiry r = now) (files (db w))) \<and>
            (\<forall>r \<in> set (files (db w)). expiry r = now \<longrightarrow>
               r \<notin> set (files (db w')) \<and> n < length (files (db w)) - length (files (db w')))) \<and>
         (\<not> (\<exists>r \<in> set (files (db w)). expiry r < now) \<longrightarrow>
            n = 0 \<and> files (db w') = files (db w))"
proof -
  note run = prune_files_Inr[OF assms]
  have len: "length (expired_paths now w) = length (filter (\<lambda>r. expiry r < now) (files (db w)))"
    by (simp add: expired_paths_def)
  have split: "length xs = length (filter (\<lambda>r. \<not> expiry r \<le> now) xs)
      + length (filter (\<lambda>r. expiry r < now) xs) + length (filter (\<lambda>r. expiry r = now) xs)"
    for xs :: "file_row list"
    by (induction xs) auto
  show ?thesis
  proof (cases "\<exists>r \<in> set (files (db w)). expiry r < now")
    case True
    then have ne: "expired_paths now w \<noteq> []"
      by (auto simp: expired_paths_def filter_empty_conv)
    have kept: "files (db w') = filter (\<lambda>r. \<not> expiry r \<le> now) (files (db w))"
      using run(3) ne by simp
    have total: "length (files (db w)) =
        length (files (db w')) + n + length (filter (\<lambda>r. expiry r = now) (files (db w)))"
      using split[of "files (db w)"] kept run(2) len by simp
    have "r \<notin> set (files (db w')) \<and> n < length (files (db w)) - length (files (db w'))"
      if r: "r \<in> set (files (db w))" "expiry r = now" for r
    proof -
      from r have "r \<in> set (filter (\<lambda>r. expiry r = now) (files (db w)))" by simp
      then have "0 < length (filter (\<lambda>r. expiry r = now) (files (db w)))"
        by (rule length_pos_if_in_set)
      with total r kept show ?thesis by auto
    qed
    with True total run(2) len show ?thesis by simp
  next
    case False
    then have "expired_paths now w = []"
      by (auto simp: expired_paths_def filter_empty_conv)
    with False run(2,3) show ?thesis by simp
  qed
qed

theorem prune_files_count_vs_deleted_witness:
  "prune_files 10 mixed_world = Inr (1, mixed_after) \<and>
   length (files (db mixed_world)) - length (files (db mixed_after)) = 2 \<and>
   prune_files 10 boundary_world = Inr (0, emit Commit boundary_world) \<and>
   files (db (emit Commit boundary_world)) = [\<lparr>path = ''F'', expiry = 10\<rparr>]"
proof -
  have run1: "prune_files 10 mixed_world = Inr (1, mixed_after)"
    by (simp add: run_defs mixed_world_def mixed_after_def scenario_db_def)
  have run2: "prune_files 10 boundary_world = Inr (0, emit Commit boundary_world)"
    by (simp add: run_defs boundary_world_def scenario_db_def)
  have a: "\<exists>r \<in> set (files (db mixed_world)). expiry r < 10"
    by (simp add: mixed_world_def scenario_db_def)
  have b: "\<not> (\<exists>r \<in> set (files (db boundary_world)). expiry r < 10)"
    by (simp add: boundary_world_def scenario_db_def)
  from prune_files_count_vs_deleted[OF run1] a
  have "length (files (db mixed_world)) =
          length (files (db mixed_after)) + 1 + length (filter (\<lambda>r. expiry r = 10) (files (db mixed_world)))"
    by blast
  then have "length (files (db mixed_world)) - length (files (db mixed_after)) = 2"
    by (simp add: mixed_world_def scenario_db_def)
  moreover from prune_files_count_vs_deleted[OF run2] b
  have "files (db (emit Commit boundary_world)) = files (db boundary_world)" by blast
  then have "files (db (emit Commit boundary_world)) = [\<lparr>path = ''F'', expiry = 10\<rparr>]"
    by (simp add: boundary_world_def scenario_db_def)
  ultimately show ?thesis using run1 run2 by blast
qed

text \<open>
  C8. The events after the commit of a run of \<open>prune_files\<close>: \<^verbatim>\<open>os.unlink\<close> is called
  for every selected path, in order, whatever the earlier calls raised; the returned count
  is the number of selected paths; the log records are one ERROR for each call that raised
  something other than \<open>FileNotFoundError\<close> (and none for a \<open>FileNotFoundError\<close>),
  followed by the INFO record, which carries the number of successful calls when that
  differs from the count; a path counted as unlinked held a removable file before and holds
  nothing afterwards; and the rows with \<open>expiry \<le> now\<close> are gone from the table, no
  transaction event following the commit.
\<close>

theorem prune_files_unlink_phase:
  assumes "prune_files now w = Inr (n, w')"
  shows "\<exists>evs. trace w' = trace w @ Commit # evs \<and>
           transactions evs = [] \<and>
           unlink_calls evs = map path (filter (\<lambda>r. expiry r < now) (files (db w))) \<and>
           n = length (unlink_calls evs) \<and>
           logged evs =
             map (\<lambda>(p, x). (ERROR, Unable_to_remove p x)) (unlink_failures evs) @
             (if n = 0 then []
              else [(INFO, Pruned_files n
                      (if length (unlinked evs) \<noteq> n then Some (length (unlinked evs)) else None))]) \<and>
           (\<forall>p \<in> set (unlinked evs). fs w p = Some Removable \<and> fs w' p = None) \<and>
           (n \<noteq> 0 \<longrightarrow> files (db w') = filter (\<lambda>r. \<not> expiry r \<le> now) (files (db w)))"
proof -
  note run = prune_files_Inr[OF assms]
  let ?sel = "expired_paths now w"
  let ?loop = "unlink_events ?sel (fs w)"
  let ?info = "Log INFO (Pruned_files (length ?sel)
                 (if length (unlinked ?loop) \<noteq> length ?sel then Some (length (unlinked ?loop)) else None))"
  define evs where "evs = (if ?sel = [] then [] else ?loop @ [?info])"
  have tr: "trace w' = trace w @ Commit # evs" using run(6) by (simp add: evs_def)
  have txs: "transactions evs = []" by (simp add: evs_def)
  have calls: "unlink_calls evs = ?sel" by (simp add: evs_def)
  have n: "n = length (unlink_calls evs)" using run(2) calls by simp
  have un: "unlinked evs = unlinked ?loop" by (simp add: evs_def)
  have fl: "unlink_failures evs = unlink_failures ?loop" by (simp add: evs_def)
  have logs: "logged evs =
             map (\<lambda>(p, x). (ERROR, Unable_to_remove p x)) (unlink_failures evs) @
             (if n = 0 then []
              else [(INFO, Pruned_files n
                      (if length (unlinked evs) \<noteq> n then Some (length (unlinked evs)) else None))])"
    unfolding un fl using run(2) by (simp add: evs_def unlink_events_logged)
  have removed: "fs w p = Some Removable \<and> fs w' p = None" if "p \<in> set (unlinked evs)" for p
  proof -
    from that have "Unlink p None \<in> set ?loop" unfolding un by (simp add: set_unlinked)
    then have a: "fs w p = Some Removable" by (rule unlink_events_removed)
    from \<open>Unlink p None \<in> set ?loop\<close> have "p \<in> set (unlink_calls ?loop)"
      by (rule set_unlink_calls)
    then have "p \<in> set ?sel" by simp
    with a run(5)[of p] show ?thesis by simp
  qed
  have files: "n \<noteq> 0 \<longrightarrow> files (db w') = filter (\<lambda>r. \<not> expiry r \<le> now) (files (db w))"
    using run(2,3) by auto
  from tr txs calls n logs removed files show ?thesis
    unfolding expired_paths_def by blast
qed

theorem prune_files_unlink_phase_witness:
  "prune_files 10 scenario_world = Inr (3, scenario_after) \<and>
   logged (trace scenario_after) = [(INFO, Pruned_files 3 (Some 2))] \<and>
   unlinked (trace scenario_after) = [''A'', ''C''] \<and>
   prune_files 10 guarded_world = Inr (3, guarded_after) \<and>
   logged (trace guarded_after) =
     [(ERROR, Unable_to_remove ''C'' PermissionError), (INFO, Pruned_files 3 (Some 1))] \<and>
   unlink_calls (trace guarded_after) = [''A'', ''B'', ''C''] \<and>
   files (db guarded_after) = [\<lparr>path = ''D'', expiry = 20\<rparr>]"
proof -
  have run1: "prune_files 10 scenario_world = Inr (3, scenario_after)"
    by (simp add: run_defs scenario_world_def scenario_after_def scenario_db_def)
  have run2: "prune_files 10 guarded_world = Inr (3, guarded_after)"
    by (simp add: run_defs guarded_world_def guarded_after_def scenario_db_def)
  from prune_files_unlink_phase[OF run1] obtain evs1 where
    t1: "trace scenario_after = trace scenario_world @ Commit # evs1" and
    l1: "logged evs1 =
           map (\<lambda>(p, x). (ERROR, Unable_to_remove p x)) (unlink_failures evs1) @
           (if (3::nat) = 0 then []
            else [(INFO, Pruned_files 3
                    (if length (unlinked evs1) \<noteq> 3 then Some (length (unlinked evs1)) else None))])"
    by blast
  from t1 have e1: "evs1 = [Unlink ''A'' None, Unlink ''B'' (Some FileNotFoundError), Unlink ''C'' None,
               Log INFO (Pruned_files 3 (Some 2))]"
    by (simp add: scenario_world_def scenario_after_def)
  from prune_files_unlink_phase[OF run2] obtain evs2 where
    t2: "trace guarded_after = trace guarded_world @ Commit # evs2" and
    c2: "unlink_calls evs2 = map path (filter (\<lambda>r. expiry r < 10) (files (db guarded_world)))" and
    l2: "logged evs2 =
           map (\<lambda>(p, x). (ERROR, Unable_to_remove p x)) (unlink_failures evs2) @
           (if (3::nat) = 0 then []
            else [(INFO, Pruned_files 3
                    (if length (unlinked evs2) \<noteq> 3 then Some (length (unlinked evs2)) else None))])" and
    f2: "(3::nat) \<noteq> 0 \<longrightarrow> files (db guarded_after) = filter (\<lambda>r. \<not> expiry r \<le> 10) (files (db guarded_world))"
    by blast
  from t2 have e2: "evs2 = [Unlink ''A'' None, Unlink ''B'' (Some FileNotFoundError),
               Unlink ''C'' (Some PermissionError), Log ERROR (Unable_to_remove ''C'' PermissionError),
               Log INFO (Pruned_files 3 (Some 1))]"
    by (simp add: guarded_world_def guarded_after_def)
  have "logged (trace scenario_after) = [(INFO, Pruned_files 3 (Some 2))]"
    using t1 l1 by (simp add: scenario_world_def) (simp add: e1)
  moreover have "unlinked (trace scenario_after) = [''A'', ''C'']"
    using t1 by (simp add: scenario_world_def) (simp add: e1)
  moreover have "logged (trace guarded_after) =
     [(ERROR, Unable_to_remove ''C'' PermissionError), (INFO, Pruned_files 3 (Some 1))]"
    using t2 l2 by (simp add: guarded_world_def) (simp add: e2)
  moreover have "unlink_calls (trace guarded_after) = [''A'', ''B'', ''C'']"
    using t2 c2 by (simp add: guarded_world_def scenario_db_def)
  moreover have "files (db guarded_after) = [\<lparr>path = ''D'', expiry = 20\<rparr>]"
    using f2 by (simp add: guarded_world_def scenario_db_def)
  ultimately show ?thesis using run1 run2 by blast
qed

subsection \<open>Properties of prune\_message\_history and prune\_room\_activity\<close>




subsection \<open>Properties of apply\_permission\_updates\<close>

text \<open>
  C2. After a run of \<open>apply_permission_updates\<close>, the live row of a key (room, user) is
  the result of merging the futures of that key with \<open>at \<le> now\<close>, one after the other in
  table order, into the row the key had (\<open>spec_merge_row\<close>: a missing row takes the future's
  flags as they are, NULLs included; an existing row takes each flag of the future that is
  not NULL and keeps its own value for the others). For a key with exactly one such
  future this is the merge of that future into the live row. In particular the future
  \<open>{read = NULL, write = false, banned = true}\<close> merged into \<open>{read = true, write = NULL}\<close>
  gives \<open>{read = true, write = false, banned = true}\<close> and leaves \<open>upload\<close> as it was.
\<close>

theorem apply_permission_updates_merge:
  assumes "apply_permission_updates now w = Inr (n, w')"
  shows "(\<forall>k. user_permission_overrides (db w') k =
              foldl spec_merge_row (user_permission_overrides (db w) k)
                (filter (\<lambda>f. at_time f \<le> now \<and> (room f, user f) = k) (user_permission_futures (db w)))) \<and>
         (\<forall>f. filter (\<lambda>g. at_time g \<le> now \<and> (room g, user g) = (room f, user f))
                 (user_permission_futures (db w)) = [f] \<longrightarrow>
              user_permission_overrides (db w') (room f, user f) =
                (case user_permission_overrides (db w) (room f, user f) of
                   None \<Rightarrow> Some (flags f)
                 | Some live \<Rightarrow>
                     Some \<lparr>read = (if read (flags f) \<noteq> None then read (flags f) else read live),
                           write = (if write (flags f) \<noteq> None then write (flags f) else write live),
                           upload = (if upload (flags f) \<noteq> None then upload (flags f) else upload live),
                           banned = (if banned (flags f) \<noteq> None then banned (flags f) else banned live)\<rparr>)) \<and>
         (\<forall>f u b. filter (\<lambda>g. at_time g \<le> now \<and> (room g, user g) = (room f, user f))
                 (user_permission_futures (db w)) = [f] \<and>
              flags f = \<lparr>read = None, write = Some False, upload = None, banned = Some True\<rparr> \<and>
              user_permission_overrides (db w) (room f, user f) =
                Some \<lparr>read = Some True, write = None, upload = u, banned = b\<rparr> \<longrightarrow>
              user_permission_overrides (db w') (room f, user f) =
                Some \<lparr>read = Some True, write = Some False, upload = u, banned = Some True\<rparr>)"
proof -
  have gen: "user_permission_overrides (db w') k =
              foldl spec_merge_row (user_permission_overrides (db w) k)
                (filter (\<lambda>f. at_time f \<le> now \<and> (room f, user f) = k) (user_permission_futures (db w)))"
    for k
  proof (cases "due now w = []")
    case True
    then have "filter (\<lambda>f. at_time f \<le> now \<and> (room f, user f) = k) (user_permission_futures (db w)) = []"
      by (auto simp: due_def filter_empty_conv)
    with True assms show ?thesis
      by (auto simp: apply_permission_updates_eq split: if_splits)
  next
    case False
    with assms show ?thesis
      by (auto simp: apply_permission_updates_eq foldl_upsert_apply due_def split: if_splits)
  qed
  have one: "user_permission_overrides (db w') (room f, user f) =
                (case user_permission_overrides (db w) (room f, user f) of
                   None \<Rightarrow> Some (flags f)
                 | Some live \<Rightarrow>
                     Some \<lparr>read = (if read (flags f) \<noteq> None then read (flags f) else read live),
                           write = (if write (flags f) \<noteq> None then write (flags f) else write live),
                           upload = (if upload (flags f) \<noteq> None then upload (flags f) else upload live),
                           banned = (if banned (flags f) \<noteq> None then banned (flags f) else banned live)\<rparr>)"
    if "filter (\<lambda>g. at_time g \<le> now \<and> (room g, user g) = (room f, user f))
                 (user_permission_futures (db w)) = [f]" for f
    using gen[of "(room f, user f)"] that
    by (simp add: spec_merge_row_def spec_merge_def split: option.splits)
  have ex: "user_permission_overrides (db w') (room f, user f) =
                Some \<lparr>read = Some True, write = Some False, upload = u, banned = Some True\<rparr>"
    if "filter (\<lambda>g. at_time g \<le> now \<and> (room g, user g) = (room f, user f))
                 (user_permission_futures (db w)) = [f]"
      "flags f = \<lparr>read = None, write = Some False, upload = None, banned = Some True\<rparr>"
      "user_permission_overrides (db w) (room f, user f) =
                Some \<lparr>read = Some True, write = None, upload = u, banned = b\<rparr>" for f u b
    using one[OF that(1)] that(2,3) by simp
  from gen one ex show ?thesis by blast
qed

theorem apply_permission_updates_merge_witness:
  "apply_permission_updates 100 perms_world = Inr (2, perms_after) \<and>
   user_permission_overrides (db perms_after) (1, 7) =
     Some \<lparr>read = Some True, write = Some False, upload = Some True, banned = Some True\<rparr> \<and>
   user_permission_overrides (db perms_world) (2, 8) = None \<and>
   user_permission_overrides (db perms_after) (2, 8) =
     Some \<lparr>read = Some False, write = None, upload = None, banned = None\<rparr> \<and>
   user_permission_overrides (db perms_after) (1, 9) = None"
proof -
  have run: "apply_permission_updates 100 perms_world = Inr (2, perms_after)"
    by (simp add: perms_defs perms_world_def perms_after_def scenario_db_def)
  note m = apply_permission_updates_merge[OF run]
  let ?f = "\<lparr>room = 1, user = 7, at_time = 50,
             flags = \<lparr>read = None, write = Some False, upload = None, banned = Some True\<rparr>\<rparr>"
  let ?g = "\<lparr>room = 2, user = 8, at_time = 100,
             flags = \<lparr>read = Some False, write = None, upload = None, banned = None\<rparr>\<rparr>"
  have "filter (\<lambda>g. at_time g \<le> 100 \<and> (room g, user g) = (room ?f, user ?f))
          (user_permission_futures (db perms_world)) = [?f] \<and>
        flags ?f = \<lparr>read = None, write = Some False, upload = None, banned = Some True\<rparr> \<and>
        user_permission_overrides (db perms_world) (room ?f, user ?f) =
          Some \<lparr>read = Some True, write = None, upload = Some True, banned = None\<rparr>"
    by (simp add: perms_world_def scenario_db_def)
  with m have "user_permission_overrides (db perms_after) (room ?f, user ?f) =
     Some \<lparr>read = Some True, write = Some False, upload = Some True, banned = Some True\<rparr>"
    by blast
  then have a: "user_permission_overrides (db perms_after) (1, 7) =
     Some \<lparr>read = Some True, write = Some False, upload = Some True, banned = Some True\<rparr>"
    by simp
  have one: "filter (\<lambda>g. at_time g \<le> 100 \<and> (room g, user g) = (room ?g, user ?g))
          (user_permission_futures (db perms_world)) = [?g]"
    and none: "user_permission_overrides (db perms_world) (2, 8) = None"
    by (simp_all add: perms_world_def scenario_db_def)
  from m one have "user_permission_overrides (db perms_after) (room ?g, user ?g) =
      (case user_permission_overrides (db perms_world) (room ?g, user ?g) of
         None \<Rightarrow> Some (flags ?g)
       | Some live \<Rightarrow>
           Some \<lparr>read = (if read (flags ?g) \<noteq> None then read (flags ?g) else read live),
                 write = (if write (flags ?g) \<noteq> None then write (flags ?g) else write live),
                 upload = (if upload (flags ?g) \<noteq> None then upload (flags ?g) else upload live),
                 banned = (if banned (flags ?g) \<noteq> None then banned (flags ?g) else banned live)\<rparr>)"
    by blast
  with none have b: "user_permission_overrides (db perms_after) (2, 8) =
     Some \<lparr>read = Some False, write = None, upload = None, banned = None\<rparr>"
    by simp
  from m have "user_permission_overrides (db perms_after) (1, 9) =
      foldl spec_merge_row (user_permission_overrides (db perms_world) (1, 9))
        (filter (\<lambda>f. at_time f \<le> 100 \<and> (room f, user f) = (1, 9)) (user_permission_futures (db perms_world)))"
    by blast
  then have c: "user_permission_overrides (db perms_after) (1, 9) = None"
    by (simp add: perms_world_def scenario_db_def)
  from run a none b c show ?thesis by blast
qed

text \<open>
  C4. \<open>apply_permission_updates\<close> returns the number of rows the upsert affected, one for
  each future with \<open>at \<le> now\<close>. When that number is 0 the store is unchanged (no future
  is deleted) and nothing is logged. Otherwise the futures with \<open>at \<le> now\<close> are deleted
  under the same commit as the upsert. In both cases no future with \<open>at \<le> now\<close> is left
  after a run that returned.
\<close>

theorem apply_permission_updates_count:
  assumes "apply_permission_updates now w = Inr (n, w')"
  shows "n = length (filter (\<lambda>f. at_time f \<le> now) (user_permission_futures (db w))) \<and>
         (n = 0 \<longrightarrow> db w' = db w \<and> trace w' = trace w @ [Commit]) \<and>
         (n \<noteq> 0 \<longrightarrow>
            user_permission_futures (db w') =
              filter (\<lambda>f. \<not> at_time f \<le> now) (user_permission_futures (db w)) \<and>
            trace w' = trace w @ [Commit, Log INFO (Applied_permission_updates n)]) \<and>
         filter (\<lambda>f. at_time f \<le> now) (user_permission_futures (db w')) = []"
proof (cases "due now w = []")
  case True
  with assms show ?thesis
    by (auto simp: apply_permission_updates_eq split: if_splits) (simp_all add: due_def)
next
  case False
  with assms show ?thesis
    by (auto simp: apply_permission_updates_eq split: if_splits) (simp_all add: due_def)
qed

theorem apply_permission_updates_count_witness:
  "apply_permission_updates 100 perms_world = Inr (2, perms_after) \<and>
   user_permission_futures (db perms_after) =
     [\<lparr>room = 1, user = 9, at_time = 200,
       flags = \<lparr>read = None, write = None, upload = Some False, banned = None\<rparr>\<rparr>] \<and>
   trace perms_after = trace perms_world @ [Commit, Log INFO (Applied_permission_updates 2)] \<and>
   apply_permission_updates 10 perms_world = Inr (0, emit Commit perms_world) \<and>
   db (emit Commit perms_world) = db perms_world"
proof -
  have run1: "apply_permission_updates 100 perms_world = Inr (2, perms_after)"
    by (simp add: perms_defs perms_world_def perms_after_def scenario_db_def)
  have run2: "apply_permission_updates 10 perms_world = Inr (0, emit Commit perms_world)"
    by (simp add: perms_defs perms_world_def scenario_db_def)
  from apply_permission_updates_count[OF run1]
  have "user_permission_futures (db perms_after) =
          filter (\<lambda>f. \<not> at_time f \<le> 100) (user_permission_futures (db perms_world))"
    and t: "trace perms_after = trace perms_world @ [Commit, Log INFO (Applied_permission_updates 2)]"
    by simp_all
  then have f: "user_permission_futures (db perms_after) =
     [\<lparr>room = 1, user = 9, at_time = 200,
       flags = \<lparr>read = None, write = None, upload = Some False, banned = None\<rparr>\<rparr>]"
    by (simp add: perms_world_def scenario_db_def)
  from apply_permission_updates_count[OF run2]
  have "db (emit Commit perms_world) = db perms_world" by simp
  with run1 run2 f t show ?thesis by blast
qed

subsection \<open>Running an operation twice\<close>

text \<open>
  C6. Each of the four operations, run a second time on the world the first run left
  (nothing added in between), returns 0, provided that no row qualifies for the second
  run's clock value that did not qualify for the first one's; this holds in particular
  when both runs read the same time.
\<close>

theorem prune_twice_second_zero:
  "(prune_files now1 w = Inr (n1, w1) \<and> prune_files now2 w1 = Inr (n2, w2) \<and>
      (\<forall>r \<in> set (files (db w1)). expiry r < now2 \<longrightarrow> expiry r < now1) \<longrightarrow> n2 = 0) \<and>
   (prune_message_history cfg now1 w = Inr (h1, v1) \<and> prune_message_history cfg now2 v1 = Inr (h2, v2) \<and>
      (\<forall>r \<in> set (message_history (db v1)).
         sql_less (replaced r) (float_sub now2 (float_mul (MESSAGE_HISTORY_PRUNE_THRESHOLD cfg) 86400)) \<longrightarrow>
         sql_less (replaced r) (float_sub now1 (float_mul (MESSAGE_HISTORY_PRUNE_THRESHOLD cfg) 86400))) \<longrightarrow> h2 = 0) \<and>
   (prune_room_activity cfg now1 w = Inr (a1, u1) \<and> prune_room_activity cfg now2 u1 = Inr (a2, u2) \<and>
      (\<forall>r \<in> set (room_users (db u1)).
         sql_less (last_active r) (float_sub now2 (float_mul (ROOM_ACTIVE_PRUNE_THRESHOLD cfg) 86400)) \<longrightarrow>
         sql_less (last_active r) (float_sub now1 (float_mul (ROOM_ACTIVE_PRUNE_THRESHOLD cfg) 86400))) \<longrightarrow> a2 = 0) \<and>
   (apply_permission_updates now1 w = Inr (p1, x1) \<and> apply_permission_updates now2 x1 = Inr (p2, x2) \<and>
      (\<forall>f \<in> set (user_permission_futures (db x1)). at_time f \<le> now2 \<longrightarrow> at_time f \<le> now1) \<longrightarrow> p2 = 0)"
proof -
  have files: "n2 = 0"
    if "prune_files now1 w = Inr (n1, w1)" "prune_files now2 w1 = Inr (n2, w2)"
      "\<forall>r \<in> set (files (db w1)). expiry r < now2 \<longrightarrow> expiry r < now1"
  proof -
    have "\<forall>r \<in> set (files (db w1)). \<not> expiry r < now1"
      using prune_files_Inr(3)[OF that(1)]
      by (cases "expired_paths now1 w = []") (auto simp: expired_paths_def filter_empty_conv)
    with that(3) have "expired_paths now2 w1 = []"
      by (auto simp: expired_paths_def filter_empty_conv)
    with prune_files_Inr(2)[OF that(2)] show ?thesis by simp
  qed
  have hist: "h2 = 0"
    if "prune_message_history cfg now1 w = Inr (h1, v1)" "prune_message_history cfg now2 v1 = Inr (h2, v2)"
      "\<forall>r \<in> set (message_history (db v1)).
         sql_less (replaced r) (float_sub now2 (float_mul (MESSAGE_HISTORY_PRUNE_THRESHOLD cfg) 86400)) \<longrightarrow>
         sql_less (replaced r) (float_sub now1 (float_mul (MESSAGE_HISTORY_PRUNE_THRESHOLD cfg) 86400))"
  proof -
    have "\<forall>r \<in> set (message_history (db v1)). \<not> sql_less (replaced r) (history_bound cfg now1)"
      using that(1) by (auto simp: prune_message_history_eq split: if_splits)
    with that(3) have "filter (\<lambda>r. sql_less (replaced r) (history_bound cfg now2)) (message_history (db v1)) = []"
      by (auto simp: history_bound_def filter_empty_conv)
    with that(2) show ?thesis by (auto simp: prune_message_history_eq split: if_splits)
  qed
  have act: "a2 = 0"
    if "prune_room_activity cfg now1 w = Inr (a1, u1)" "prune_room_activity cfg now2 u1 = Inr (a2, u2)"
      "\<forall>r \<in> set (room_users (db u1)).
         sql_less (last_active r) (float_sub now2 (float_mul (ROOM_ACTIVE_PRUNE_THRESHOLD cfg) 86400)) \<longrightarrow>
         sql_less (last_active r) (float_sub now1 (float_mul (ROOM_ACTIVE_PRUNE_THRESHOLD cfg) 86400))"
  proof -
    have "\<forall>r \<in> set (room_users (db u1)). \<not> sql_less (last_active r) (activity_bound cfg now1)"
      using that(1) by (auto simp: prune_room_activity_eq split: if_splits)
    with that(3) have "filter (\<lambda>r. sql_less (last_active r) (activity_bound cfg now2)) (room_users (db u1)) = []"
      by (auto simp: activity_bound_def filter_empty_conv)
    with that(2) show ?thesis by (auto simp: prune_room_activity_eq split: if_splits)
  qed
  have perm: "p2 = 0"
    if "apply_permission_updates now1 w = Inr (p1, x1)" "apply_permission_updates now2 x1 = Inr (p2, x2)"
      "\<forall>f \<in> set (user_permission_futures (db x1)). at_time f \<le> now2 \<longrightarrow> at_time f \<le> now1"
  proof -
    have "\<forall>f \<in> set (user_permission_futures (db x1)). \<not> at_time f \<le> now1"
      using that(1)
      by (cases "due now1 w = []")
        (auto simp: apply_permission_updates_eq due_def filter_empty_conv split: if_splits)
    with that(3) have "due now2 x1 = []"
      by (auto simp: due_def filter_empty_conv)
    with that(2) show ?thesis by (auto simp: apply_permission_updates_eq split: if_splits)
  qed
  from files hist act perm show ?thesis by blast
qed

theorem prune_twice_second_zero_witness:
  "prune_files 10 scenario_world = Inr (3, scenario_after) \<and>
   (\<exists>w2. prune_files 10 scenario_after = Inr (0, w2)) \<and>
   prune_message_history retention_cfg 8640000 retention_world = Inr (1, history_after) \<and>
   (\<exists>v2. prune_message_history retention_cfg 8640000 history_after = Inr (0, v2)) \<and>
   prune_room_activity retention_cfg 8640000 retention_world = Inr (1, activity_after) \<and>
   (\<exists>u2. prune_room_activity retention_cfg 8640000 activity_after = Inr (0, u2)) \<and>
   apply_permission_updates 100 perms_world = Inr (2, perms_after) \<and>
   (\<exists>x2. apply_permission_updates 100 perms_after = Inr (0, x2))"
proof -
  have f1: "prune_files 10 scenario_world = Inr (3, scenario_after)"
    by (simp add: run_defs scenario_world_def scenario_after_def scenario_db_def)
  have "tx_ok scenario_after" by (simp add: tx_ok_def scenario_after_def)
  from prune_files_succeeds[OF this, of 10] obtain n2 w2 where
    f2: "prune_files 10 scenario_after = Inr (n2, w2)" by blast
  have "n2 = 0"
    using prune_twice_second_zero[of 10 scenario_world 3 scenario_after 10 n2 w2] f1 f2 by blast
  with f2 have files: "\<exists>w2. prune_files 10 scenario_after = Inr (0, w2)" by blast
  have hb: "float_sub 8640000 (float_mul (MESSAGE_HISTORY_PRUNE_THRESHOLD retention_cfg) 86400) =
     Finite 6048000"
    and ab: "float_sub 8640000 (float_mul (ROOM_ACTIVE_PRUNE_THRESHOLD retention_cfg) 86400) =
     Finite 3456000"
    by (simp_all add: retention_cfg_def float_defs)
  have h1: "prune_message_history retention_cfg 8640000 retention_world = Inr (1, history_after)"
    unfolding prune_message_history_def hb
    by (simp add: prune_message_history_tx_def tx_def emit_def
          retention_cfg_def retention_world_def history_after_def scenario_db_def)
  have "tx_ok history_after" by (simp add: tx_ok_def history_after_def retention_world_def)
  from prune_message_history_succeeds[OF this, of retention_cfg 8640000] obtain h2 v2 where
    h2: "prune_message_history retention_cfg 8640000 history_after = Inr (h2, v2)" by blast
  have "h2 = 0"
    using prune_twice_second_zero[of 8640000 retention_world _ _ 8640000 _ _ retention_cfg 1 history_after h2 v2]
      h1 h2 by blast
  with h2 have hist: "\<exists>v2. prune_message_history retention_cfg 8640000 history_after = Inr (0, v2)"
    by blast
  have a1: "prune_room_activity retention_cfg 8640000 retention_world = Inr (1, activity_after)"
    unfolding prune_room_activity_def ab
    by (simp add: prune_room_activity_tx_def tx_def emit_def
          retention_cfg_def retention_world_def activity_after_def scenario_db_def)
  have "tx_ok activity_after" by (simp add: tx_ok_def activity_after_def retention_world_def)
  from prune_room_activity_succeeds[OF this, of retention_cfg 8640000] obtain a2 u2 where
    a2: "prune_room_activity retention_cfg 8640000 activity_after = Inr (a2, u2)" by blast
  have "a2 = 0"
    using prune_twice_second_zero[of 8640000 retention_world _ _ 8640000 _ _ retention_cfg _ _ _ _
        1 activity_after a2 u2]
      a1 a2 by blast
  with a2 have act: "\<exists>u2. prune_room_activity retention_cfg 8640000 activity_after = Inr (0, u2)"
    by blast
  have p1: "apply_permission_updates 100 perms_world = Inr (2, perms_after)"
    by (simp add: perms_defs perms_world_def perms_after_def scenario_db_def)
  have "tx_ok perms_after" by (simp add: tx_ok_def perms_after_def)
  from apply_permission_updates_succeeds[OF this, of 100] obtain p2 x2 where
    p2: "apply_permission_updates 100 perms_after = Inr (p2, x2)" by blast
  have "p2 = 0"
    using prune_twice_second_zero[of 100 perms_world _ _ 100 _ _ _ _ _ _ _ _ _ _ _ 2 perms_after p2 x2]
      p1 p2 by blast
  with p2 have perm: "\<exists>x2. apply_permission_updates 100 perms_after = Inr (0, x2)" by blast
  from f1 files h1 hist a1 act p1 perm show ?thesis by blast
qed


subsection \<open>Properties of cleanup\<close>

text \<open>
  C7. \<open>cleanup\<close> returns a world and never an error. When one of the four operations raises,
  the result is the world that operation left (its transaction rolled back) with one
  WARNING record added: the tick has opened as many transactions as there are operations up
  to the failing one, and the store is as the last successful operation left it, so the
  later operations have not run. A following tick in which the store does not raise runs
  all four operations, each committing its transaction, and ends with the summary record
  of their four counts.
\<close>

theorem cleanup_isolates_failure:
  "(prune_files t1 (emit (Log DEBUG Pruning_expired_items) w) = Inl (e1, x1) \<longrightarrow>
      cleanup cfg t1 t2 t3 t4 w = emit (Log WARNING (Cleanup_failed e1)) x1 \<and>
      transactions (trace (cleanup cfg t1 t2 t3 t4 w)) = transactions (trace w) @ [Rollback] \<and>
      db (cleanup cfg t1 t2 t3 t4 w) = db w \<and> fs (cleanup cfg t1 t2 t3 t4 w) = fs w) \<and>
   (prune_files t1 (emit (Log DEBUG Pruning_expired_items) w) = Inr (a, w1) \<and>
    prune_message_history cfg t2 w1 = Inl (e2, x2) \<longrightarrow>
      cleanup cfg t1 t2 t3 t4 w = emit (Log WARNING (Cleanup_failed e2)) x2 \<and>
      transactions (trace (cleanup cfg t1 t2 t3 t4 w)) = transactions (trace w) @ [Commit, Rollback] \<and>
      db (cleanup cfg t1 t2 t3 t4 w) = db w1) \<and>
   (prune_files t1 (emit (Log DEBUG Pruning_expired_items) w) = Inr (a, w1) \<and>
    prune_message_history cfg t2 w1 = Inr (b, w2) \<and>
    prune_room_activity cfg t3 w2 = Inl (e3, x3) \<longrightarrow>
      cleanup cfg t1 t2 t3 t4 w = emit (Log WARNING (Cleanup_failed e3)) x3 \<and>
      transactions (trace (cleanup cfg t1 t2 t3 t4 w)) = transactions (trace w) @ [Commit, Commit, Rollback] \<and>
      db (cleanup cfg t1 t2 t3 t4 w) = db w2) \<and>
   (prune_files t1 (emit (Log DEBUG Pruning_expired_items) w) = Inr (a, w1) \<and>
    prune_message_history cfg t2 w1 = Inr (b, w2) \<and>
    prune_room_activity cfg t3 w2 = Inr (c, w3) \<and>
    apply_permission_updates t4 w3 = Inl (e4, x4) \<longrightarrow>
      cleanup cfg t1 t2 t3 t4 w = emit (Log WARNING (Cleanup_failed e4)) x4 \<and>
      transactions (trace (cleanup cfg t1 t2 t3 t4 w)) =
        transactions (trace w) @ [Commit, Commit, Commit, Rollback] \<and>
      db (cleanup cfg t1 t2 t3 t4 w) = db w3) \<and>
   (True \<notin> set (take 4 (faults (cleanup cfg t1 t2 t3 t4 w))) \<longrightarrow>
      (\<exists>a' b' c' d' v1 v2 v3 v4.
          prune_files s1 (emit (Log DEBUG Pruning_expired_items) (cleanup cfg t1 t2 t3 t4 w)) = Inr (a', v1) \<and>
          prune_message_history cfg s2 v1 = Inr (b', v2) \<and>
          prune_room_activity cfg s3 v2 = Inr (c', v3) \<and>
          apply_permission_updates s4 v3 = Inr (d', v4) \<and>
          cleanup cfg s1 s2 s3 s4 (cleanup cfg t1 t2 t3 t4 w) =
            emit (Log DEBUG (Pruned_summary a' b' c' d')) v4 \<and>
          transactions (trace (cleanup cfg s1 s2 s3 s4 (cleanup cfg t1 t2 t3 t4 w))) =
            transactions (trace (cleanup cfg t1 t2 t3 t4 w)) @ [Commit, Commit, Commit, Commit]))"
proof -
  let ?w0 = "emit (Log DEBUG Pruning_expired_items) w"
  let ?r = "cleanup cfg t1 t2 t3 t4 w"
  have c1: "?r = emit (Log WARNING (Cleanup_failed e1)) x1 \<and>
      transactions (trace ?r) = transactions (trace w) @ [Rollback] \<and> db ?r = db w \<and> fs ?r = fs w"
    if "prune_files t1 ?w0 = Inl (e1, x1)"
    using that prune_files_Inl(3)[OF that] by (simp add: cleanup_def)
  have c2: "?r = emit (Log WARNING (Cleanup_failed e2)) x2 \<and>
      transactions (trace ?r) = transactions (trace w) @ [Commit, Rollback] \<and> db ?r = db w1"
    if "prune_files t1 ?w0 = Inr (a, w1)" "prune_message_history cfg t2 w1 = Inl (e2, x2)"
    using that prune_files_commits[OF that(1)] prune_message_history_Inl[OF that(2)]
    by (simp add: cleanup_def)
  have c3: "?r = emit (Log WARNING (Cleanup_failed e3)) x3 \<and>
      transactions (trace ?r) = transactions (trace w) @ [Commit, Commit, Rollback] \<and> db ?r = db w2"
    if "prune_files t1 ?w0 = Inr (a, w1)" "prune_message_history cfg t2 w1 = Inr (b, w2)"
      "prune_room_activity cfg t3 w2 = Inl (e3, x3)"
    using that prune_files_commits[OF that(1)] prune_message_history_commits[OF that(2)]
      prune_room_activity_Inl[OF that(3)]
    by (simp add: cleanup_def)
  have c4: "?r = emit (Log WARNING (Cleanup_failed e4)) x4 \<and>
      transactions (trace ?r) = transactions (trace w) @ [Commit, Commit, Commit, Rollback] \<and> db ?r = db w3"
    if "prune_files t1 ?w0 = Inr (a, w1)" "prune_message_history cfg t2 w1 = Inr (b, w2)"
      "prune_room_activity cfg t3 w2 = Inr (c, w3)" "apply_permission_updates t4 w3 = Inl (e4, x4)"
    using that prune_files_commits[OF that(1)] prune_message_history_commits[OF that(2)]
      prune_room_activity_commits[OF that(3)] apply_permission_updates_Inl[OF that(4)]
    by (simp add: cleanup_def)
  note c5 = cleanup_full_tick[of ?r s1 cfg s2 s3 s4]
  from c1 c2 c3 c4 c5 show ?thesis by blast
qed

theorem cleanup_isolates_failure_witness:
  "prune_files 10 (emit (Log DEBUG Pruning_expired_items) faulty_world) = Inr (3, faulty_mid) \<and>
   prune_message_history retention_cfg 10 faulty_mid = Inl (StoreError, emit Rollback (faulty_mid\<lparr>faults := []\<rparr>)) \<and>
   cleanup retention_cfg 10 10 10 10 faulty_world = faulty_after \<and>
   transactions (trace faulty_after) = [Commit, Rollback] \<and>
   logged (trace faulty_after) =
     [(DEBUG, Pruning_expired_items), (INFO, Pruned_files 3 (Some 2)), (WARNING, Cleanup_failed StoreError)] \<and>
   faults faulty_after = [] \<and>
   transactions (trace (cleanup retention_cfg 20 20 20 20 faulty_after)) =
     [Commit, Rollback, Commit, Commit, Commit, Commit]"
proof -
  have r1: "prune_files 10 (emit (Log DEBUG Pruning_expired_items) faulty_world) = Inr (3, faulty_mid)"
    by (simp add: run_defs faulty_world_def faulty_mid_def scenario_world_def scenario_after_def scenario_db_def)
  have r2: "prune_message_history retention_cfg 10 faulty_mid =
      Inl (StoreError, emit Rollback (faulty_mid\<lparr>faults := []\<rparr>))"
    by (simp add: prune_message_history_def tx_def faulty_mid_def)
  note inst = cleanup_isolates_failure[of 10 faulty_world _ _ retention_cfg 10 10 10 3 faulty_mid
      StoreError "emit Rollback (faulty_mid\<lparr>faults := []\<rparr>)" _ _ _ _ _ _ _ _ 20 20 20 20]
  from inst r1 r2 have c: "cleanup retention_cfg 10 10 10 10 faulty_world =
      emit (Log WARNING (Cleanup_failed StoreError)) (emit Rollback (faulty_mid\<lparr>faults := []\<rparr>))"
    by blast
  then have after: "cleanup retention_cfg 10 10 10 10 faulty_world = faulty_after"
    by (simp add: emit_def faulty_mid_def faulty_after_def scenario_after_def)
  have t: "transactions (trace faulty_after) = [Commit, Rollback]"
    and l: "logged (trace faulty_after) =
     [(DEBUG, Pruning_expired_items), (INFO, Pruned_files 3 (Some 2)), (WARNING, Cleanup_failed StoreError)]"
    and f: "faults faulty_after = []"
    by (simp_all add: faulty_after_def scenario_after_def)
  from f have "True \<notin> set (take 4 (faults (cleanup retention_cfg 10 10 10 10 faulty_world)))"
    unfolding after by simp
  with inst have "transactions (trace (cleanup retention_cfg 20 20 20 20 (cleanup retention_cfg 10 10 10 10 faulty_world))) =
            transactions (trace (cleanup retention_cfg 10 10 10 10 faulty_world)) @ [Commit, Commit, Commit, Commit]"
    by blast
  then have n: "transactions (trace (cleanup retention_cfg 20 20 20 20 faulty_after)) =
     [Commit, Rollback, Commit, Commit, Commit, Commit]"
    unfolding after by (simp add: t)
  from r1 r2 after t l f n show ?thesis by blast
qed

end
